theory Spec2Isabelle
  imports Main "HOL-Library.Word"
begin

unbundle bit_operations_syntax

section \<open>Data model\<close>

text \<open>
  The embedding follows \<^verbatim>\<open>text-charset-detection/detcharset.cpp\<close>.

  \<^item> \<^verbatim>\<open>utf8_checking_unit_t\<close> (\<^verbatim>\<open>unsigned char\<close>) is an 8-bit word.
  \<^item> The sample buffer is a list of bytes. A pointer into it (\<^verbatim>\<open>ucharPtr\<close>,
    \<^verbatim>\<open>charBufEndPtr\<close>, \<^verbatim>\<open>stopPos\<close>) is its index relative to \<^verbatim>\<open>bufferStart\<close>, so
    \<^verbatim>\<open>ucharPtr - charBufStartPtr\<close> is the index itself. Comparisons with
    \<^verbatim>\<open>charBufEndPtr - n\<close> are made on integers, since the right-hand side may lie
    before the start of the buffer.
  \<^item> \<^verbatim>\<open>size_t\<close> values (lengths, counts) are natural numbers: they are bounded by
    the buffer length or by the longest assumed sequence length 6, so none of
    the additions of the source wraps around. The pointer differences
    \<^verbatim>\<open>charBufEndPtr - ucharPtr\<close> are all taken behind a guard that makes them
    positive.
  \<^item> Every read \<^verbatim>\<open>ucharPtr[i]\<close> goes through \<open>rd\<close>, which faults outside the buffer.
    \<^verbatim>\<open>&&\<close> and \<^verbatim>\<open>||\<close> evaluate their right operand only when the source does.
  \<^item> Output parameters are returned as components of the result; a parameter the
    function reads or may leave untouched is also an argument.
  \<^item> \<^verbatim>\<open>reason\<close> is the diagnostic log, a string that is only appended to.
\<close>

type_synonym utf8_checking_unit_t = "8 word"

datatype fault =
    OutOfBoundsRead   \<comment> \<open>a byte read outside the buffer\<close>
  | NullPointer       \<comment> \<open>the cursor set from a pointer that is still \<^verbatim>\<open>nullptr\<close>\<close>
  | AssertionFailed   \<comment> \<open>\<^verbatim>\<open>assert\<close> failed\<close>
  | BadAlloc          \<comment> \<open>\<^verbatim>\<open>std::bad_alloc\<close> from \<^verbatim>\<open>make_unique\<close>\<close>
  | LogicError        \<comment> \<open>\<^verbatim>\<open>std::logic_error\<close> from the \<^verbatim>\<open>default\<close> of a \<^verbatim>\<open>switch\<close>\<close>

definition bindE :: "fault + 'a \<Rightarrow> ('a \<Rightarrow> fault + 'b) \<Rightarrow> fault + 'b" where
  "bindE m f = (case m of Inl e \<Rightarrow> Inl e | Inr x \<Rightarrow> f x)"

definition rd :: "utf8_checking_unit_t list \<Rightarrow> nat \<Rightarrow> fault + utf8_checking_unit_t" where
  "rd buf i = (if i < length buf then Inr (buf ! i) else Inl OutOfBoundsRead)"

text \<open>\<^verbatim>\<open>a && b\<close>, \<^verbatim>\<open>a || b\<close> and \<^verbatim>\<open>!a\<close> over expressions that read the buffer.\<close>

definition andE :: "fault + bool \<Rightarrow> fault + bool \<Rightarrow> fault + bool" where
  "andE a b = bindE a (\<lambda>x. if x then b else Inr False)"

definition orE :: "fault + bool \<Rightarrow> fault + bool \<Rightarrow> fault + bool" where
  "orE a b = bindE a (\<lambda>x. if x then Inr True else b)"

definition notE :: "fault + bool \<Rightarrow> fault + bool" where
  "notE a = bindE a (\<lambda>x. Inr (\<not> x))"

text \<open>\<^verbatim>\<open>ucharPtr[i] == c\<close>, \<^verbatim>\<open>c <= ucharPtr[i]\<close> and \<^verbatim>\<open>ucharPtr[i] <= c\<close>, with
  \<open>q\<close> the index of \<^verbatim>\<open>ucharPtr[i]\<close>.\<close>

definition byte_eq :: "utf8_checking_unit_t list \<Rightarrow> nat \<Rightarrow> utf8_checking_unit_t \<Rightarrow> fault + bool" where
  "byte_eq buf q c = bindE (rd buf q) (\<lambda>b. Inr (b = c))"

definition le_byte :: "utf8_checking_unit_t \<Rightarrow> utf8_checking_unit_t list \<Rightarrow> nat \<Rightarrow> fault + bool" where
  "le_byte c buf q = bindE (rd buf q) (\<lambda>b. Inr (c \<le> b))"

definition byte_le :: "utf8_checking_unit_t list \<Rightarrow> nat \<Rightarrow> utf8_checking_unit_t \<Rightarrow> fault + bool" where
  "byte_le buf q c = bindE (rd buf q) (\<lambda>b. Inr (b \<le> c))"

subsection \<open>Compile-time constants\<close>

definition UTF8_MAX_CHAR_SIZE :: nat where
  "UTF8_MAX_CHAR_SIZE = 4"

definition UTF8_NO_BOM_TEXT_SAMPLE_SIZE :: nat where
  "UTF8_NO_BOM_TEXT_SAMPLE_SIZE = 0"

definition UTF8_TINY_MODE_SIZE_LIMIT :: nat where
  "UTF8_TINY_MODE_SIZE_LIMIT = 1000000000"

definition UTF8_SUBCLASSIFY_TOO_LONG_SEQUENCES :: bool where
  "UTF8_SUBCLASSIFY_TOO_LONG_SEQUENCES = True"

definition UTF8_DETAILED_ERROR_LIST :: bool where
  "UTF8_DETAILED_ERROR_LIST = True"

subsection \<open>Rendering of the diagnostics\<close>

text \<open>\<^verbatim>\<open>std::to_string\<close> on a non-negative number: its decimal digits.\<close>

fun to_string :: "nat \<Rightarrow> string" where
  "to_string n =
     (if n < 10 then [''0123456789'' ! n]
      else to_string (n div 10) @ [''0123456789'' ! (n mod 10)])"

declare to_string.simps [simp del]

text \<open>\<^verbatim>\<open>std::bitset<8>(uchar).to_string()\<close>: the eight bits, most significant first.\<close>

definition UcharToBinStr :: "utf8_checking_unit_t \<Rightarrow> string" where
  "UcharToBinStr uchar =
     map (\<lambda>i. if bit uchar i then CHR ''1'' else CHR ''0'') [7, 6, 5, 4, 3, 2, 1, 0]"

lemma bindE_cong [fundef_cong]:
  "m = m' \<Longrightarrow> (\<And>x. m' = Inr x \<Longrightarrow> f x = f' x) \<Longrightarrow> bindE m f = bindE m' f'"
  by (auto simp: bindE_def split: sum.splits)

text \<open>The loop \<^verbatim>\<open>for (i = 1; i < len; ++i) retval += " " + UcharToBinStr(ucharPtr[i])\<close>
  of \<^verbatim>\<open>UcharSeqToBinStr\<close>; \<open>q\<close> is the index of \<^verbatim>\<open>ucharPtr[0]\<close>.\<close>

function UcharSeqToBinStr_loop ::
  "utf8_checking_unit_t list \<Rightarrow> nat \<Rightarrow> nat \<Rightarrow> nat \<Rightarrow> string \<Rightarrow> fault + string" where
  "UcharSeqToBinStr_loop buf q len i retval =
     (if i < len
      then bindE (rd buf (q + i))
             (\<lambda>b. UcharSeqToBinStr_loop buf q len (i + 1) (retval @ '' '' @ UcharToBinStr b))
      else Inr retval)"
  by pat_completeness auto
termination
  by (relation "measure (\<lambda>(buf, q, len, i, retval). len - i)") auto

declare UcharSeqToBinStr_loop.simps [simp del]

definition UcharSeqToBinStr :: "utf8_checking_unit_t list \<Rightarrow> nat \<Rightarrow> nat \<Rightarrow> fault + string" where
  "UcharSeqToBinStr buf q len =
     (if len = 0 then Inr ''[]''
      else bindE (rd buf q) (\<lambda>b0.
           bindE (UcharSeqToBinStr_loop buf q len 1 (''['' @ UcharToBinStr b0)) (\<lambda>retval.
           Inr (retval @ '']''))))"

section \<open>Byte classifier\<close>

text \<open>In each function \<open>p\<close> is the index \<^verbatim>\<open>ucharPtr\<close> points to.\<close>

definition UTF8CharASCII7 :: "utf8_checking_unit_t list \<Rightarrow> nat \<Rightarrow> fault + bool" where
  "UTF8CharASCII7 buf p =
     orE (orE (orE (byte_eq buf p 0x09) (byte_eq buf p 0x0A)) (byte_eq buf p 0x0D))
         (andE (le_byte 0x20 buf p) (byte_le buf p 0x7E))"

definition UTF8InvalidControlChar :: "utf8_checking_unit_t list \<Rightarrow> nat \<Rightarrow> fault + bool" where
  "UTF8InvalidControlChar buf p =
     andE (bindE (rd buf p) (\<lambda>b. Inr (b AND 0x80 = 0)))
          (notE (UTF8CharASCII7 buf p))"

definition UTF8CharValid2Bytes :: "utf8_checking_unit_t list \<Rightarrow> nat \<Rightarrow> fault + bool" where
  "UTF8CharValid2Bytes buf p =
     andE (andE (le_byte 0xC2 buf p) (byte_le buf p 0xDF))
          (andE (le_byte 0x80 buf (p + 1)) (byte_le buf (p + 1) 0xBF))"

definition UTF8Invalid2BytesOverlong :: "utf8_checking_unit_t list \<Rightarrow> nat \<Rightarrow> fault + bool" where
  "UTF8Invalid2BytesOverlong buf p =
     andE (le_byte 0xC0 buf p) (byte_le buf p 0xC1)"

definition UTF8CharValid3Bytes :: "utf8_checking_unit_t list \<Rightarrow> nat \<Rightarrow> fault + bool" where
  "UTF8CharValid3Bytes buf p =
     orE (orE
       (andE (andE
          (orE (orE (andE (le_byte 0xE1 buf p) (byte_le buf p 0xEC)) (byte_eq buf p 0xEE))
               (byte_eq buf p 0xEF))
          (andE (le_byte 0x80 buf (p + 1)) (byte_le buf (p + 1) 0xBF)))
          (andE (le_byte 0x80 buf (p + 2)) (byte_le buf (p + 2) 0xBF)))
       (andE (andE
          (byte_eq buf p 0xE0)
          (andE (le_byte 0xA0 buf (p + 1)) (byte_le buf (p + 1) 0xBF)))
          (andE (le_byte 0x80 buf (p + 2)) (byte_le buf (p + 2) 0xBF))))
       (andE (andE
          (byte_eq buf p 0xED)
          (andE (le_byte 0x80 buf (p + 1)) (byte_le buf (p + 1) 0x9F)))
          (andE (le_byte 0x80 buf (p + 2)) (byte_le buf (p + 2) 0xBF)))"

definition UTF8Invalid3BytesOverlong :: "utf8_checking_unit_t list \<Rightarrow> nat \<Rightarrow> fault + bool" where
  "UTF8Invalid3BytesOverlong buf p =
     andE (byte_eq buf p 0xE0)
          (andE (le_byte 0x80 buf (p + 1)) (byte_le buf (p + 1) 0x9F))"

definition UTF8Invalid3BytesSurrogateHalf :: "utf8_checking_unit_t list \<Rightarrow> nat \<Rightarrow> fault + bool" where
  "UTF8Invalid3BytesSurrogateHalf buf p =
     andE (byte_eq buf p 0xED)
          (andE (le_byte 0xA0 buf (p + 1)) (byte_le buf (p + 1) 0xBF))"

definition UTF8CharValid4Bytes :: "utf8_checking_unit_t list \<Rightarrow> nat \<Rightarrow> fault + bool" where
  "UTF8CharValid4Bytes buf p =
     orE (orE
       (andE (andE (andE
          (byte_eq buf p 0xF0)
          (andE (le_byte 0x90 buf (p + 1)) (byte_le buf (p + 1) 0xBF)))
          (andE (le_byte 0x80 buf (p + 2)) (byte_le buf (p + 2) 0xBF)))
          (andE (le_byte 0x80 buf (p + 3)) (byte_le buf (p + 3) 0xBF)))
       (andE (andE (andE
          (andE (le_byte 0xF1 buf p) (byte_le buf p 0xF3))
          (andE (le_byte 0x80 buf (p + 1)) (byte_le buf (p + 1) 0xBF)))
          (andE (le_byte 0x80 buf (p + 2)) (byte_le buf (p + 2) 0xBF)))
          (andE (le_byte 0x80 buf (p + 3)) (byte_le buf (p + 3) 0xBF))))
       (andE (andE (andE
          (byte_eq buf p 0xF4)
          (andE (le_byte 0x80 buf (p + 1)) (byte_le buf (p + 1) 0x8F)))
          (andE (le_byte 0x80 buf (p + 2)) (byte_le buf (p + 2) 0xBF)))
          (andE (le_byte 0x80 buf (p + 3)) (byte_le buf (p + 3) 0xBF)))"

definition UTF8Invalid4BytesOverlong :: "utf8_checking_unit_t list \<Rightarrow> nat \<Rightarrow> fault + bool" where
  "UTF8Invalid4BytesOverlong buf p =
     andE (byte_eq buf p 0xF0)
          (andE (le_byte 0x80 buf (p + 1)) (byte_le buf (p + 1) 0xBF))"

text \<open>\<^verbatim>\<open>codePoint\<close> is written only when the test holds; \<open>None\<close> is a value never
  assigned (\<^verbatim>\<open>unsigned int dummy;\<close> at the call).\<close>

definition UTF8InvalidCodePoint4BytesF4 ::
  "utf8_checking_unit_t list \<Rightarrow> nat \<Rightarrow> 32 word option \<Rightarrow> fault + (bool \<times> 32 word option)" where
  "UTF8InvalidCodePoint4BytesF4 buf p codePoint =
     bindE (andE (byte_eq buf p 0xF4)
                 (andE (le_byte 0x90 buf (p + 1)) (le_byte 0xBF buf (p + 1)))) (\<lambda>c.
       if c then
         bindE (rd buf (p + 1)) (\<lambda>b1.
         bindE (rd buf (p + 2)) (\<lambda>b2.
         bindE (rd buf (p + 3)) (\<lambda>b3.
           Inr (True,
                Some (push_bit 12 ((ucast b1 :: 32 word) AND 0x3F) OR
                      push_bit 6 ((ucast b2 :: 32 word) AND 0x3F) OR
                      ((ucast b3 :: 32 word) AND 0x3F))))))
       else Inr (False, codePoint))"

definition UTF8InvalidCodePoint4BytesNonF4 :: "utf8_checking_unit_t list \<Rightarrow> nat \<Rightarrow> fault + bool" where
  "UTF8InvalidCodePoint4BytesNonF4 buf p =
     andE (le_byte 0xF5 buf p) (byte_le buf p 0xF7)"

section \<open>Leading-byte decoder\<close>

text \<open>Returns \<^verbatim>\<open>(bValid, utf8sequenceLength)\<close>. The binary literals of the source are
  \<open>0b111110 = 0x3E\<close>, \<open>0b1111110 = 0x7E\<close>, \<open>0b1111111 = 0x7F\<close>, \<open>0b11110 = 0x1E\<close>,
  \<open>0b1110 = 0x0E\<close>, \<open>0b110 = 0x06\<close>; \<^verbatim>\<open>leadingByte\<close> is shifted in place by 3, 1, 1
  and 2 bits.\<close>

definition UTF8IsValidLeadingByte :: "utf8_checking_unit_t list \<Rightarrow> nat \<Rightarrow> fault + (bool \<times> nat)" where
  "UTF8IsValidLeadingByte buf p =
     bindE (rd buf p) (\<lambda>leadingByte.
       if UTF8_SUBCLASSIFY_TOO_LONG_SEQUENCES \<and> drop_bit 2 leadingByte = 0x3E then Inr (False, 5)
       else if UTF8_SUBCLASSIFY_TOO_LONG_SEQUENCES \<and> drop_bit 1 leadingByte = 0x7E then Inr (False, 6)
       else if UTF8_SUBCLASSIFY_TOO_LONG_SEQUENCES \<and> drop_bit 1 leadingByte = 0x7F then Inr (False, 1)
       else
         let leadingByte3 = drop_bit 3 leadingByte in
         if leadingByte3 = 0x1E then Inr (True, 4)
         else
           let leadingByte4 = drop_bit 1 leadingByte3 in
           if leadingByte4 = 0x0E then Inr (True, 3)
           else
             let leadingByte5 = drop_bit 1 leadingByte4 in
             if leadingByte5 = 0x06 then Inr (True, 2)
             else
               let leadingByte7 = drop_bit 2 leadingByte5 in
               if leadingByte7 = 0 then Inr (True, 1)
               else Inr (False, 1))"

section \<open>Continuation verifier\<close>

definition UTF8IsContinuationByte :: "utf8_checking_unit_t list \<Rightarrow> nat \<Rightarrow> fault + bool" where
  "UTF8IsContinuationByte buf p = bindE (rd buf p) (\<lambda>b. Inr (b AND 0xC0 = 0x80))"

text \<open>The test of \<^verbatim>\<open>UTF8IsContinuationByte\<close> on a byte that has been read.\<close>

definition continuation_shape :: "utf8_checking_unit_t \<Rightarrow> bool" where
  "continuation_shape b = (b AND 0xC0 = 0x80)"

text \<open>The loop \<^verbatim>\<open>for (idx = 1; idx < checkUntil; ++idx)\<close>, which stops at the first
  byte that is no continuation byte. It returns
  \<^verbatim>\<open>(bMismatchFound, whereToContinueChecking)\<close>; a pointer is \<open>None\<close> while it is
  \<^verbatim>\<open>nullptr\<close>.\<close>

function UTF8InvalidNrOfContinuationBytes_loop ::
  "utf8_checking_unit_t list \<Rightarrow> nat \<Rightarrow> nat \<Rightarrow> nat \<Rightarrow> bool \<Rightarrow> nat option
     \<Rightarrow> fault + (bool \<times> nat option)" where
  "UTF8InvalidNrOfContinuationBytes_loop buf p checkUntil idx bMismatchFound whereToContinueChecking =
     (if idx < checkUntil
      then bindE (UTF8IsContinuationByte buf (p + idx)) (\<lambda>c.
             if \<not> c then Inr (True, Some (p + idx))
             else UTF8InvalidNrOfContinuationBytes_loop buf p checkUntil (idx + 1)
                    bMismatchFound whereToContinueChecking)
      else Inr (bMismatchFound, whereToContinueChecking))"
  by pat_completeness auto
termination
  by (relation "measure (\<lambda>(buf, p, checkUntil, idx, m, w). checkUntil - idx)") auto

declare UTF8InvalidNrOfContinuationBytes_loop.simps [simp del]

text \<open>Returns \<^verbatim>\<open>(bTruncated, bMismatchFound, whereToContinueChecking)\<close>; the last two
  are passed in with the values the caller initialised them to.\<close>

definition UTF8InvalidNrOfContinuationBytes ::
  "utf8_checking_unit_t list \<Rightarrow> nat \<Rightarrow> nat \<Rightarrow> nat \<Rightarrow> bool \<Rightarrow> nat option
     \<Rightarrow> fault + (bool \<times> bool \<times> nat option)" where
  "UTF8InvalidNrOfContinuationBytes buf p requiredContinuationBytes bufferRemains
       bMismatchFound whereToContinueChecking =
     (let (bTruncated, whereTo, checkUntil) =
            (if requiredContinuationBytes + 1 > bufferRemains
             then (True, Some (p + bufferRemains), bufferRemains)
             else (False, whereToContinueChecking, requiredContinuationBytes + 1))
      in bindE (UTF8InvalidNrOfContinuationBytes_loop buf p checkUntil 1 bMismatchFound whereTo)
           (\<lambda>(bMismatchFound', whereTo'). Inr (bTruncated, bMismatchFound', whereTo')))"

text \<open>Returns \<^verbatim>\<open>(result, ucharPtr, reason)\<close>.\<close>

definition UTF8InvalidLeadingOrContinuation ::
  "utf8_checking_unit_t list \<Rightarrow> nat \<Rightarrow> nat \<Rightarrow> string \<Rightarrow> fault + (bool \<times> nat \<times> string)" where
  "UTF8InvalidLeadingOrContinuation buf ucharPtr charBufEndPtr reason =
     (let position = to_string ucharPtr in
      bindE (UTF8IsValidLeadingByte buf ucharPtr) (\<lambda>(bLeadingByteValid, utf8sequenceLength).
        if \<not> bLeadingByteValid then
          let (bytesToRead, suffix) =
                (if utf8sequenceLength > charBufEndPtr - ucharPtr
                 then (charBufEndPtr - ucharPtr, ''<end-of-buffer>'')
                 else (utf8sequenceLength, []))
          in bindE (UcharSeqToBinStr buf ucharPtr bytesToRead) (\<lambda>bin.
               Inr (True, ucharPtr + bytesToRead,
                    reason @ ''Invalid leading byte found at '' @ position @
                      '' (assumed length='' @ to_string utf8sequenceLength @ ''): '' @
                      bin @ suffix @ ''\<newline>''))
        else
          bindE (UTF8InvalidNrOfContinuationBytes buf ucharPtr (utf8sequenceLength - 1)
                   (charBufEndPtr - ucharPtr) False None)
            (\<lambda>(bTruncated, bMisMatch, ucharPtrUpdate).
              if bTruncated then
                bindE (UcharSeqToBinStr buf ucharPtr (charBufEndPtr - ucharPtr)) (\<lambda>bin.
                  case ucharPtrUpdate of
                    None \<Rightarrow> Inl NullPointer
                  | Some q \<Rightarrow>
                      Inr (True, q,
                           reason @ ''Invalid nr of continuation bytes after leading byte [possible truncation] at '' @
                             position @ '': '' @ bin @ ''<end-of-buffer>\<newline>''))
              else if bMisMatch then
                bindE (UcharSeqToBinStr buf ucharPtr utf8sequenceLength) (\<lambda>bin.
                  case ucharPtrUpdate of
                    None \<Rightarrow> Inl NullPointer
                  | Some q \<Rightarrow>
                      Inr (True, q,
                           reason @ ''Invalid nr of continuation bytes after leading byte [unexpected non-continuation byte] at '' @
                             position @ '': '' @ bin @ ''\<newline>''))
              else Inr (False, ucharPtr, reason))))"

section \<open>Per-character validation\<close>

text \<open>Returns \<^verbatim>\<open>(ucharPtr, bThisCharValidUTF8, bThisCharValidASCII7, reason)\<close>. The first
  branch is \<^verbatim>\<open>assert(false)\<close>; every other path assigns both flags.\<close>

definition UTF8CharValidate ::
  "bool \<Rightarrow> utf8_checking_unit_t list \<Rightarrow> nat \<Rightarrow> nat \<Rightarrow> string
     \<Rightarrow> fault + (nat \<times> bool \<times> bool \<times> string)" where
  "UTF8CharValidate bBufferEndCheck buf ucharPtr charBufEndPtr reason =
     (if bBufferEndCheck \<and> int ucharPtr > int charBufEndPtr - 1 then Inl AssertionFailed
      else
        bindE (UTF8CharASCII7 buf ucharPtr) (\<lambda>ascii7.
        if ascii7 then Inr (ucharPtr + 1, True, True, reason)
        else if bBufferEndCheck \<and> int ucharPtr > int charBufEndPtr - 2 then
          Inr (ucharPtr, False, False,
               reason @ ''Not valid 1-byte UTF-8 at the end, no room for testing any 2-byte UTF-8 sequence --> considered non-UTF-8\<newline>'')
        else
          bindE (UTF8CharValid2Bytes buf ucharPtr) (\<lambda>valid2.
          if valid2 then Inr (ucharPtr + 2, True, False, reason)
          else if bBufferEndCheck \<and> int ucharPtr > int charBufEndPtr - 3 then
            Inr (ucharPtr, False, False,
                 reason @ ''Not valid 1 or 2-byte UTF-8 at the end, no room for testing any 3-byte UTF-8 sequence --> considered non-UTF-8\<newline>'')
          else
            bindE (UTF8CharValid3Bytes buf ucharPtr) (\<lambda>valid3.
            if valid3 then Inr (ucharPtr + 3, True, False, reason)
            else if bBufferEndCheck \<and> int ucharPtr > int charBufEndPtr - 4 then
              Inr (ucharPtr, False, False,
                   reason @ ''Not valid 1,2, or 3-byte UTF-8 at the end, no room for testing any 4-byte UTF-8 sequence --> considered non-UTF-8\<newline>'')
            else
              bindE (UTF8CharValid4Bytes buf ucharPtr) (\<lambda>valid4.
              if valid4 then Inr (ucharPtr + 4, True, False, reason)
              else Inr (ucharPtr, False, False,
                        reason @ ''Found invalid UTF-8 sequence\<newline>''))))))"

section \<open>Error classifier\<close>

text \<open>Returns \<^verbatim>\<open>(ucharPtr, reason)\<close>.\<close>

definition UTF8CheckErrors ::
  "utf8_checking_unit_t list \<Rightarrow> nat \<Rightarrow> nat \<Rightarrow> string \<Rightarrow> fault + (nat \<times> string)" where
  "UTF8CheckErrors buf ucharPtr0 charBufEndPtr reason0 =
     (if int ucharPtr0 > int charBufEndPtr - 1 then Inr (ucharPtr0, reason0)
      else
        let position = to_string ucharPtr0 in
        bindE (UTF8InvalidLeadingOrContinuation buf ucharPtr0 charBufEndPtr reason0)
          (\<lambda>(invalid, ucharPtr, reason).
        if invalid then Inr (ucharPtr, reason)
        else
        bindE (UTF8InvalidControlChar buf ucharPtr) (\<lambda>control.
        if control then
          bindE (UcharSeqToBinStr buf ucharPtr 1) (\<lambda>bin.
            Inr (ucharPtr + 1,
                 reason @ ''Invalid 1 byte sequence: control char found at '' @ position @ '': '' @
                   bin @ ''\<newline>''))
        else if int ucharPtr > int charBufEndPtr - 2 then
          bindE (UcharSeqToBinStr buf ucharPtr (charBufEndPtr - ucharPtr)) (\<lambda>bin.
            Inr (charBufEndPtr,
                 reason @ ''Unknown UTF-8 error: checked all 1-byte possibilities, reached end of buffer at position '' @
                   position @ '': '' @ bin @ ''<end-of-buffer>\<newline>''))
        else
        bindE (UTF8Invalid2BytesOverlong buf ucharPtr) (\<lambda>overlong2.
        if overlong2 then
          bindE (UcharSeqToBinStr buf ucharPtr 2) (\<lambda>bin.
            Inr (ucharPtr + 2,
                 reason @ ''Invalid 2-byte overlong found at '' @ position @ '': '' @
                   bin @ ''\<newline>''))
        else if int ucharPtr > int charBufEndPtr - 3 then
          bindE (UcharSeqToBinStr buf ucharPtr (charBufEndPtr - ucharPtr)) (\<lambda>bin.
            Inr (charBufEndPtr,
                 reason @ ''Unknown UTF-8 error: checked all 1,2-byte possibilities, reached end of buffer at position '' @
                   position @ '': '' @ bin @ ''<end-of-buffer>\<newline>''))
        else
        bindE (UTF8Invalid3BytesOverlong buf ucharPtr) (\<lambda>overlong3.
        if overlong3 then
          bindE (UcharSeqToBinStr buf ucharPtr 3) (\<lambda>bin.
            Inr (ucharPtr + 3,
                 reason @ ''Invalid 3-byte overlong found at '' @ position @ '': '' @
                   bin @ ''\<newline>''))
        else
        bindE (UTF8Invalid3BytesSurrogateHalf buf ucharPtr) (\<lambda>surrogate.
        if surrogate then
          bindE (UcharSeqToBinStr buf ucharPtr 3) (\<lambda>bin.
            Inr (ucharPtr + 3,
                 reason @ ''Invalid UTF-16 surrogate half found at '' @ position @ '': '' @
                   bin @ ''\<newline>''))
        else if int ucharPtr > int charBufEndPtr - 4 then
          bindE (UcharSeqToBinStr buf ucharPtr (charBufEndPtr - ucharPtr)) (\<lambda>bin.
            Inr (charBufEndPtr,
                 reason @ ''Unknown UTF-8 error: checked all 1,2,3-byte possibilities, reached end of buffer at position '' @
                   position @ '': '' @ bin @ ''<end-of-buffer>\<newline>''))
        else
        bindE (UTF8Invalid4BytesOverlong buf ucharPtr) (\<lambda>overlong4.
        if overlong4 then
          bindE (UcharSeqToBinStr buf ucharPtr 4) (\<lambda>bin.
            Inr (ucharPtr + 4,
                 reason @ ''Invalid 4-byte overlong found at '' @ position @ '': '' @
                   bin @ ''\<newline>''))
        else
        bindE (UTF8InvalidCodePoint4BytesF4 buf ucharPtr None) (\<lambda>(tooHighF4, dummy).
        if tooHighF4 then
          bindE (UcharSeqToBinStr buf ucharPtr 4) (\<lambda>bin.
            Inr (ucharPtr + 4,
                 reason @ ''Invalid code point specified by 4-byte encoding (F4) at '' @ position @ '': '' @
                   bin @ ''\<newline>''))
        else
        bindE (UTF8InvalidCodePoint4BytesNonF4 buf ucharPtr) (\<lambda>tooHighNonF4.
        if tooHighNonF4 then
          bindE (UcharSeqToBinStr buf ucharPtr 4) (\<lambda>bin.
            Inr (ucharPtr + 4,
                 reason @ ''Invalid code point specified by 4-byte encoding (non-F4) at '' @ position @ '': '' @
                   bin @ ''\<newline>''))
        else
          let safeBufDumpSize =
                (if 16 < charBufEndPtr - ucharPtr then 16 else charBufEndPtr - ucharPtr) in
          bindE (UcharSeqToBinStr buf ucharPtr safeBufDumpSize) (\<lambda>bin.
            Inr (ucharPtr + 1,
                 reason @ ''Unknown UTF-8 error: checked all known UTF-8 error classes, none of them matched at '' @
                   position @ '' (assumed length=1): '' @ bin @ ''\<newline>'')))))))))))"

section \<open>Scan driver\<close>

text \<open>The variables of \<^verbatim>\<open>CheckStreamForUTF8NoBOMInternal\<close> that live across the
  iterations of its loop.\<close>

record scan_state =
  ucharPtr :: nat
  bValidUTF8 :: bool
  b7bitASCIIOnly :: bool
  reason :: string

text \<open>One iteration of \<^verbatim>\<open>while (ucharPtr < stopPos)\<close>, entered with
  \<^verbatim>\<open>ucharPtr < stopPos\<close>. The first component of the result says whether the
  iteration left the loop through \<^verbatim>\<open>break\<close>.\<close>

definition CheckStreamForUTF8NoBOMInternal_body ::
  "bool \<Rightarrow> utf8_checking_unit_t list \<Rightarrow> nat \<Rightarrow> scan_state \<Rightarrow> fault + (bool \<times> scan_state)" where
  "CheckStreamForUTF8NoBOMInternal_body bBufferEndCheck buf stopPos st =
     bindE (UTF8CharValidate bBufferEndCheck buf (ucharPtr st) stopPos (reason st))
       (\<lambda>(p1, bThisCharValid, bThisCharValid7bitASCII, reason1).
         let st1 = \<lparr> ucharPtr = p1,
                     bValidUTF8 = (bValidUTF8 st \<and> bThisCharValid),
                     b7bitASCIIOnly = (b7bitASCIIOnly st \<and> bThisCharValid7bitASCII),
                     reason = reason1 \<rparr>
         in
         if \<not> bValidUTF8 st1 \<and> \<not> UTF8_DETAILED_ERROR_LIST then Inr (True, st1)
         else if \<not> bThisCharValid then
           bindE (UTF8CheckErrors buf p1 stopPos reason1) (\<lambda>(p2, reason2).
             Inr (False, st1\<lparr> ucharPtr := p2, reason := reason2 \<rparr>))
         else Inr (False, st1))"

text \<open>The loop \<^verbatim>\<open>while (ucharPtr < stopPos)\<close>. Its termination is proved below, from
  the progress of one iteration.\<close>

function CheckStreamForUTF8NoBOMInternal_loop ::
  "bool \<Rightarrow> utf8_checking_unit_t list \<Rightarrow> nat \<Rightarrow> scan_state \<Rightarrow> fault + scan_state" where
  "CheckStreamForUTF8NoBOMInternal_loop bBufferEndCheck buf stopPos st =
     (if ucharPtr st < stopPos
      then bindE (CheckStreamForUTF8NoBOMInternal_body bBufferEndCheck buf stopPos st)
             (\<lambda>(break, st').
               if break then Inr st'
               else CheckStreamForUTF8NoBOMInternal_loop bBufferEndCheck buf stopPos st')
      else Inr st)"
  by pat_completeness auto

text \<open>\<^verbatim>\<open>bufferStart\<close> is index 0. The result holds \<^verbatim>\<open>bValidUTF8\<close>,
  \<^verbatim>\<open>b7bitASCIIOnly\<close> and \<^verbatim>\<open>reason\<close> as the function leaves them.\<close>

definition CheckStreamForUTF8NoBOMInternal ::
  "bool \<Rightarrow> utf8_checking_unit_t list \<Rightarrow> nat \<Rightarrow> string \<Rightarrow> fault + scan_state" where
  "CheckStreamForUTF8NoBOMInternal bBufferEndCheck buf stopPos reason0 =
     CheckStreamForUTF8NoBOMInternal_loop bBufferEndCheck buf stopPos
       \<lparr> ucharPtr = 0, bValidUTF8 = True, b7bitASCIIOnly = True, reason = reason0 \<rparr>"

text \<open>The state the scan is in after \<open>n\<close> iterations of the loop.\<close>

inductive scan_after ::
  "bool \<Rightarrow> utf8_checking_unit_t list \<Rightarrow> nat \<Rightarrow> string \<Rightarrow> nat \<Rightarrow> scan_state \<Rightarrow> bool"
  for bBufferEndCheck buf stopPos reason0 where
    scan_start:
      "scan_after bBufferEndCheck buf stopPos reason0 0
         \<lparr> ucharPtr = 0, bValidUTF8 = True, b7bitASCIIOnly = True, reason = reason0 \<rparr>"
  | scan_iterate:
      "scan_after bBufferEndCheck buf stopPos reason0 n st \<Longrightarrow>
       ucharPtr st < stopPos \<Longrightarrow>
       CheckStreamForUTF8NoBOMInternal_body bBufferEndCheck buf stopPos st = Inr (False, st') \<Longrightarrow>
       scan_after bBufferEndCheck buf stopPos reason0 (Suc n) st'"

section \<open>The stream\<close>

text \<open>
  \<^verbatim>\<open>std::ifstream\<close> is not part of the repository. It is modelled as a file opened
  in binary mode: its bytes, the get position and the two state bits the code
  tests, with the operations behaving as the C++ standard describes them for
  unformatted input (a read, \<^verbatim>\<open>tellg\<close> or \<^verbatim>\<open>seekg\<close> on a stream that is not
  \<^verbatim>\<open>good()\<close> sets \<^verbatim>\<open>failbit\<close> and does nothing else; \<^verbatim>\<open>seekg\<close> clears \<^verbatim>\<open>eofbit\<close>
  first; a read that meets the end of the file sets \<^verbatim>\<open>eofbit\<close> and \<^verbatim>\<open>failbit\<close>).
  \<^verbatim>\<open>badbit\<close> is never set.
\<close>

record ifstream =
  ifs_content :: "utf8_checking_unit_t list"
  ifs_pos :: nat
  ifs_failbit :: bool
  ifs_eofbit :: bool

definition ifs_fail :: "ifstream \<Rightarrow> bool" where
  "ifs_fail ifs = ifs_failbit ifs"

definition ifs_eof :: "ifstream \<Rightarrow> bool" where
  "ifs_eof ifs = ifs_eofbit ifs"

definition ifs_good :: "ifstream \<Rightarrow> bool" where
  "ifs_good ifs = (\<not> ifs_failbit ifs \<and> \<not> ifs_eofbit ifs)"

definition ifs_clear :: "ifstream \<Rightarrow> ifstream" where
  "ifs_clear ifs = ifs\<lparr> ifs_failbit := False, ifs_eofbit := False \<rparr>"

text \<open>\<^verbatim>\<open>tellg()\<close>: the position, or \<open>-1\<close>.\<close>

definition ifs_tellg :: "ifstream \<Rightarrow> int \<times> ifstream" where
  "ifs_tellg ifs =
     (if ifs_good ifs then (int (ifs_pos ifs), ifs)
      else (- 1, ifs\<lparr> ifs_failbit := True \<rparr>))"

text \<open>\<^verbatim>\<open>seekg(pos)\<close> and \<^verbatim>\<open>seekg(0, std::ios::end)\<close>.\<close>

definition ifs_seekg :: "ifstream \<Rightarrow> int \<Rightarrow> ifstream" where
  "ifs_seekg ifs newPos =
     (let ifs1 = ifs\<lparr> ifs_eofbit := False \<rparr> in
      if ifs_failbit ifs1 then ifs1
      else if newPos < 0 then ifs1\<lparr> ifs_failbit := True \<rparr>
      else ifs1\<lparr> ifs_pos := nat newPos \<rparr>)"

definition ifs_seekg_end :: "ifstream \<Rightarrow> ifstream" where
  "ifs_seekg_end ifs =
     (let ifs1 = ifs\<lparr> ifs_eofbit := False \<rparr> in
      if ifs_failbit ifs1 then ifs1
      else ifs1\<lparr> ifs_pos := length (ifs_content ifs1) \<rparr>)"

text \<open>\<^verbatim>\<open>read(dst, n)\<close>: the bytes stored; \<^verbatim>\<open>gcount()\<close> is their number.\<close>

definition ifs_read :: "ifstream \<Rightarrow> nat \<Rightarrow> utf8_checking_unit_t list \<times> ifstream" where
  "ifs_read ifs n =
     (if ifs_good ifs then
        let got = take n (drop (ifs_pos ifs) (ifs_content ifs)) in
        (got, ifs\<lparr> ifs_pos := ifs_pos ifs + length got,
                    ifs_failbit := (length got < n),
                    ifs_eofbit := (length got < n) \<rparr>)
      else ([], ifs\<lparr> ifs_failbit := True \<rparr>))"

text \<open>A file with the given bytes, just opened.\<close>

definition ifstream_open :: "utf8_checking_unit_t list \<Rightarrow> ifstream" where
  "ifstream_open bytes =
     \<lparr> ifs_content = bytes, ifs_pos = 0, ifs_failbit = False, ifs_eofbit = False \<rparr>"

section \<open>Sample reader\<close>

text \<open>Returns \<^verbatim>\<open>(sampleTextBuffer, allocBufferSize, usableBufferSize, ifs)\<close>. The
  buffer has \<^verbatim>\<open>allocBufferSize\<close> bytes, zero where \<^verbatim>\<open>read\<close> stored nothing
  (\<^verbatim>\<open>make_unique\<close> value-initialises). \<^verbatim>\<open>tellg\<close> returning \<open>-1\<close> makes
  \<^verbatim>\<open>bytesTillEndOfStream\<close> the largest \<^verbatim>\<open>size_t\<close>, which \<^verbatim>\<open>make_unique\<close> cannot
  allocate; an allocation of the size of a file succeeds.\<close>

definition ReadSampleToBuffer ::
  "ifstream \<Rightarrow> fault + (utf8_checking_unit_t list \<times> nat \<times> nat \<times> ifstream)" where
  "ReadSampleToBuffer ifs =
     (let (savedStreamPos, ifs1) = ifs_tellg ifs;
          ifs2 = ifs_seekg_end ifs1;
          (endPos, ifs3) = ifs_tellg ifs2;
          ifs4 = ifs_seekg ifs3 savedStreamPos
      in
      if endPos < 0 then Inl BadAlloc
      else
        let bytesTillEndOfStream = nat endPos;
            allocBufferSize =
              (if UTF8_NO_BOM_TEXT_SAMPLE_SIZE = 0 \<or> UTF8_NO_BOM_TEXT_SAMPLE_SIZE > bytesTillEndOfStream
               then bytesTillEndOfStream
               else UTF8_NO_BOM_TEXT_SAMPLE_SIZE);
            (got, ifs5) = ifs_read ifs4 allocBufferSize;
            sampleTextBuffer = got @ replicate (allocBufferSize - length got) 0;
            usableBufferSize = length got;
            ifs6 = (if usableBufferSize < allocBufferSize then ifs_clear ifs5 else ifs5);
            ifs7 = ifs_seekg ifs6 savedStreamPos
        in Inr (sampleTextBuffer, allocBufferSize, usableBufferSize, ifs7))"

section \<open>Signature matcher\<close>

definition SIGNATURE_CHECK_RESULT_FAIL :: int where
  "SIGNATURE_CHECK_RESULT_FAIL = 0"

definition SIGNATURE_CHECK_RESULT_NOT_FOUND :: int where
  "SIGNATURE_CHECK_RESULT_NOT_FOUND = 1"

definition SIGNATURE_CHECK_RESULT_FOUND :: int where
  "SIGNATURE_CHECK_RESULT_FOUND = 2"

text \<open>The loop \<^verbatim>\<open>for (idx = 0; idx < sizeof(signature); ++idx)\<close>: whether it meets
  \<^verbatim>\<open>readBuf[idx] != signature[idx]\<close>. Both arrays have \<open>N\<close> elements, the length of
  the signature.\<close>

function CheckStreamForSignature_loop ::
  "utf8_checking_unit_t list \<Rightarrow> utf8_checking_unit_t list \<Rightarrow> nat \<Rightarrow> bool" where
  "CheckStreamForSignature_loop readBuf signature idx =
     (if idx < length signature
      then (if readBuf ! idx \<noteq> signature ! idx then True
            else CheckStreamForSignature_loop readBuf signature (idx + 1))
      else False)"
  by pat_completeness auto
termination
  by (relation "measure (\<lambda>(readBuf, signature, idx). length signature - idx)") auto

declare CheckStreamForSignature_loop.simps [simp del]

text \<open>Returns \<^verbatim>\<open>(result, ifs, reason)\<close>.\<close>

definition CheckStreamForSignature ::
  "ifstream \<Rightarrow> string \<Rightarrow> utf8_checking_unit_t list \<Rightarrow> int \<times> ifstream \<times> string" where
  "CheckStreamForSignature ifs reason0 signature =
     (if ifs_fail ifs then
        (SIGNATURE_CHECK_RESULT_FAIL, ifs, reason0 @ ''stream.fail()\<newline>'')
      else if ifs_eof ifs then
        (SIGNATURE_CHECK_RESULT_FAIL, ifs, reason0 @ ''stream empty\<newline>'')
      else
        let (savedStreamPos, ifs1) = ifs_tellg ifs;
            (readBuf, ifs2) = ifs_read ifs1 (length signature)
        in
        if length readBuf < length signature then
          (SIGNATURE_CHECK_RESULT_NOT_FOUND, ifs_seekg (ifs_clear ifs2) savedStreamPos, reason0)
        else if CheckStreamForSignature_loop readBuf signature 0 then
          (SIGNATURE_CHECK_RESULT_NOT_FOUND,
           ifs_seekg (if ifs_fail ifs2 then ifs_clear ifs2 else ifs2) savedStreamPos, reason0)
        else (SIGNATURE_CHECK_RESULT_FOUND, ifs2, reason0))"

section \<open>The three checks\<close>

text \<open>The part of \<^verbatim>\<open>CheckStreamForUTF8NoBOM\<close> that chooses the mode and runs the scan
  over the sample; \<^verbatim>\<open>bufferStart + readCount - UTF8_MAX_CHAR_SIZE\<close> is computed only
  when \<^verbatim>\<open>readCount\<close> reaches the limit, so the subtraction does not go below 0.\<close>

definition CheckStreamForUTF8NoBOM_scan ::
  "utf8_checking_unit_t list \<Rightarrow> nat \<Rightarrow> string \<Rightarrow> fault + scan_state" where
  "CheckStreamForUTF8NoBOM_scan sampleTextBuffer readCount reason0 =
     (if readCount \<ge> UTF8_TINY_MODE_SIZE_LIMIT then
        CheckStreamForUTF8NoBOMInternal False sampleTextBuffer
          (readCount - UTF8_MAX_CHAR_SIZE) reason0
      else
        CheckStreamForUTF8NoBOMInternal True sampleTextBuffer readCount
          (reason0 @ ''text is shorter than a predefined limit, checking entire buffer\<newline>''))"

text \<open>Returns \<^verbatim>\<open>(result, ifs, reason)\<close>.\<close>

definition CheckStreamForUTF8NoBOM ::
  "ifstream \<Rightarrow> string \<Rightarrow> fault + (bool \<times> ifstream \<times> string)" where
  "CheckStreamForUTF8NoBOM ifs reason0 =
     bindE (ReadSampleToBuffer ifs) (\<lambda>(sampleTextBuffer, allocBufferSize, readCount, ifs1).
     bindE (CheckStreamForUTF8NoBOM_scan sampleTextBuffer readCount reason0) (\<lambda>st.
       let reason1 = (if b7bitASCIIOnly st then reason st @ ''ASCII 7-bit text\<newline>''
                      else reason st);
           reason2 = (if bValidUTF8 st
                      then reason1 @ ''sample of input contains only valid UTF-8 characters\<newline>''
                      else reason1)
       in
       if b7bitASCIIOnly st then Inr (False, ifs1, reason2)
       else Inr (bValidUTF8 st, ifs1, reason2)))"

text \<open>\<^verbatim>\<open>assert(static_cast<size_t>(ifs.tellg()) == 0)\<close> is the first branch. Returns
  \<^verbatim>\<open>(result, ifs, reason)\<close>.\<close>

definition CheckStreamForUTF8BOM ::
  "ifstream \<Rightarrow> string \<Rightarrow> fault + (bool \<times> ifstream \<times> string)" where
  "CheckStreamForUTF8BOM ifs reason0 =
     (let (tell, ifs0) = ifs_tellg ifs in
      if tell \<noteq> 0 then Inl AssertionFailed
      else
        let UTF8BOM = [0xEF, 0xBB, 0xBF];
            (checkResult, ifs1, reason1) = CheckStreamForSignature ifs0 reason0 UTF8BOM
        in
        if checkResult = SIGNATURE_CHECK_RESULT_FAIL then Inr (False, ifs1, reason1)
        else if checkResult = SIGNATURE_CHECK_RESULT_NOT_FOUND then
          Inr (False, ifs1, reason1 @ ''No UTF-8 BOM found\<newline>'')
        else if checkResult = SIGNATURE_CHECK_RESULT_FOUND then
          Inr (True, ifs1, reason1 @ ''UTF-8 BOM found\<newline>'')
        else Inl LogicError)"

text \<open>\<^verbatim>\<open>bLittleEndian\<close> is passed in with the value the caller's variable holds and
  returned as the function leaves it. Returns \<^verbatim>\<open>(result, bLittleEndian, ifs, reason)\<close>.\<close>

definition CheckStreamForUTF16BOM ::
  "ifstream \<Rightarrow> string \<Rightarrow> bool \<Rightarrow> fault + (bool \<times> bool \<times> ifstream \<times> string)" where
  "CheckStreamForUTF16BOM ifs reason0 bLittleEndian =
     (let (tell, ifs0) = ifs_tellg ifs in
      if tell \<noteq> 0 then Inl AssertionFailed
      else
        let UTF16LE_BOM = [0xFF, 0xFE];
            UTF16BE_BOM = [0xFE, 0xFF];
            (checkResultLE, ifs1, reason1) = CheckStreamForSignature ifs0 reason0 UTF16LE_BOM
        in
        if checkResultLE = SIGNATURE_CHECK_RESULT_FAIL then
          Inr (False, bLittleEndian, ifs1, reason1)
        else if checkResultLE = SIGNATURE_CHECK_RESULT_NOT_FOUND then
          let (checkResultBE, ifs2, reason2) = CheckStreamForSignature ifs1 reason1 UTF16BE_BOM
          in
          if checkResultBE = SIGNATURE_CHECK_RESULT_FAIL then
            Inr (False, bLittleEndian, ifs2, reason2)
          else if checkResultBE = SIGNATURE_CHECK_RESULT_NOT_FOUND then
            Inr (False, bLittleEndian, ifs2, reason2 @ ''No UTF-16 BOM found\<newline>'')
          else if checkResultBE = SIGNATURE_CHECK_RESULT_FOUND then
            Inr (True, False, ifs2, reason2 @ ''UTF-16 BE BOM found\<newline>'')
          else Inl LogicError
        else if checkResultLE = SIGNATURE_CHECK_RESULT_FOUND then
          Inr (True, True, ifs1, reason1 @ ''UTF-16 LE BOM found\<newline>'')
        else Inl LogicError)"

text \<open>The arguments with which \<^verbatim>\<open>CheckStreamForUTF8NoBOM\<close> calls the scan on a sample:
  the unchecked instance up to four bytes before the end when the sample reaches
  the limit, the bounds-checked instance up to the end otherwise.\<close>

definition scan_call :: "bool \<Rightarrow> utf8_checking_unit_t list \<Rightarrow> nat \<Rightarrow> bool" where
  "scan_call bBufferEndCheck sample stopPos =
     (if length sample \<ge> UTF8_TINY_MODE_SIZE_LIMIT
      then \<not> bBufferEndCheck \<and> stopPos = length sample - UTF8_MAX_CHAR_SIZE
      else bBufferEndCheck \<and> stopPos = length sample)"

section \<open>Well-formed UTF-8\<close>

text \<open>
  The notions the claims are stated with; they are not part of the code. The
  byte ranges are those of the specification's byte classifier, which for two,
  three and four bytes are the well-formed sequences of the Unicode standard
  (no overlong form, no surrogate, nothing above U+10FFFF).
\<close>

definition ascii_valid :: "utf8_checking_unit_t \<Rightarrow> bool" where
  "ascii_valid b = (b = 0x09 \<or> b = 0x0A \<or> b = 0x0D \<or> (0x20 \<le> b \<and> b \<le> 0x7E))"

definition valid2 :: "utf8_checking_unit_t \<Rightarrow> utf8_checking_unit_t \<Rightarrow> bool" where
  "valid2 b0 b1 = ((0xC2 \<le> b0 \<and> b0 \<le> 0xDF) \<and> (0x80 \<le> b1 \<and> b1 \<le> 0xBF))"

definition valid3 ::
  "utf8_checking_unit_t \<Rightarrow> utf8_checking_unit_t \<Rightarrow> utf8_checking_unit_t \<Rightarrow> bool" where
  "valid3 b0 b1 b2 =
     ((((0xE1 \<le> b0 \<and> b0 \<le> 0xEC) \<or> b0 = 0xEE \<or> b0 = 0xEF) \<and>
         (0x80 \<le> b1 \<and> b1 \<le> 0xBF) \<and> (0x80 \<le> b2 \<and> b2 \<le> 0xBF)) \<or>
      (b0 = 0xE0 \<and> (0xA0 \<le> b1 \<and> b1 \<le> 0xBF) \<and> (0x80 \<le> b2 \<and> b2 \<le> 0xBF)) \<or>
      (b0 = 0xED \<and> (0x80 \<le> b1 \<and> b1 \<le> 0x9F) \<and> (0x80 \<le> b2 \<and> b2 \<le> 0xBF)))"

definition valid4 ::
  "utf8_checking_unit_t \<Rightarrow> utf8_checking_unit_t \<Rightarrow> utf8_checking_unit_t \<Rightarrow> utf8_checking_unit_t
     \<Rightarrow> bool" where
  "valid4 b0 b1 b2 b3 =
     ((b0 = 0xF0 \<and> (0x90 \<le> b1 \<and> b1 \<le> 0xBF) \<and> (0x80 \<le> b2 \<and> b2 \<le> 0xBF) \<and>
         (0x80 \<le> b3 \<and> b3 \<le> 0xBF)) \<or>
      ((0xF1 \<le> b0 \<and> b0 \<le> 0xF3) \<and> (0x80 \<le> b1 \<and> b1 \<le> 0xBF) \<and>
         (0x80 \<le> b2 \<and> b2 \<le> 0xBF) \<and> (0x80 \<le> b3 \<and> b3 \<le> 0xBF)) \<or>
      (b0 = 0xF4 \<and> (0x80 \<le> b1 \<and> b1 \<le> 0x8F) \<and> (0x80 \<le> b2 \<and> b2 \<le> 0xBF) \<and>
         (0x80 \<le> b3 \<and> b3 \<le> 0xBF)))"

text \<open>A byte sequence that is a concatenation of encoded characters, the one-byte
  characters being those that satisfy \<open>one_byte\<close>.\<close>

inductive utf8_chars :: "(utf8_checking_unit_t \<Rightarrow> bool) \<Rightarrow> utf8_checking_unit_t list \<Rightarrow> bool"
  for one_byte where
    utf8_end: "utf8_chars one_byte []"
  | utf8_1: "one_byte b0 \<Longrightarrow> b0 \<le> 0x7F \<Longrightarrow> utf8_chars one_byte bs \<Longrightarrow>
             utf8_chars one_byte (b0 # bs)"
  | utf8_2: "valid2 b0 b1 \<Longrightarrow> utf8_chars one_byte bs \<Longrightarrow>
             utf8_chars one_byte (b0 # b1 # bs)"
  | utf8_3: "valid3 b0 b1 b2 \<Longrightarrow> utf8_chars one_byte bs \<Longrightarrow>
             utf8_chars one_byte (b0 # b1 # b2 # bs)"
  | utf8_4: "valid4 b0 b1 b2 b3 \<Longrightarrow> utf8_chars one_byte bs \<Longrightarrow>
             utf8_chars one_byte (b0 # b1 # b2 # b3 # bs)"

text \<open>Valid UTF-8 in the sense of the standard: every byte \<open>00\<close> to \<open>7F\<close> is a
  character.\<close>

definition valid_utf8 :: "utf8_checking_unit_t list \<Rightarrow> bool" where
  "valid_utf8 = utf8_chars (\<lambda>b. True)"

text \<open>Valid UTF-8 whose one-byte characters are TAB, LF, CR or \<open>20\<close> to \<open>7E\<close>: no other
  control character and no DEL.\<close>

definition valid_utf8_text :: "utf8_checking_unit_t list \<Rightarrow> bool" where
  "valid_utf8_text = utf8_chars ascii_valid"

section \<open>The 4-byte-overlong class of the specification\<close>


section \<open>Basic facts\<close>

text \<open>What each step returns whenever it returns: these facts need no assumption on
  the buffer, and give the termination of the scan loop.\<close>

lemma bindE_simps [simp]: "bindE (Inr x) f = f x" "bindE (Inl e) f = Inl e"
  by (simp_all add: bindE_def)

lemma bindE_eq_Inr: "bindE m f = Inr y \<longleftrightarrow> (\<exists>x. m = Inr x \<and> f x = Inr y)"
  by (cases m) simp_all

lemma bindE_elim: "bindE m f = Inr y \<Longrightarrow> (\<And>x. m = Inr x \<Longrightarrow> f x = Inr y \<Longrightarrow> P) \<Longrightarrow> P"
  by (auto simp: bindE_eq_Inr)

lemma andE_simps [simp]: "andE (Inr a) b = (if a then b else Inr False)" "andE (Inl e) b = Inl e"
  by (simp_all add: andE_def)
lemma orE_simps [simp]: "orE (Inr a) b = (if a then Inr True else b)" "orE (Inl e) b = Inl e"
  by (simp_all add: orE_def)
lemma notE_simps [simp]: "notE (Inr a) = Inr (\<not> a)" "notE (Inl e) = Inl e"
  by (simp_all add: notE_def)

lemma rd_in: "i < length buf \<Longrightarrow> rd buf i = Inr (buf ! i)" by (simp add: rd_def)

lemma byte_tests_in:
  "q < length buf \<Longrightarrow> byte_eq buf q c = Inr (buf ! q = c)"
  "q < length buf \<Longrightarrow> le_byte c buf q = Inr (c \<le> buf ! q)"
  "q < length buf \<Longrightarrow> byte_le buf q c = Inr (buf ! q \<le> c)"
  by (simp_all add: byte_eq_def le_byte_def byte_le_def rd_def)

lemma UTF8CharValidate_result:
  assumes "UTF8CharValidate chk buf p e r = Inr (p1, v, a, r1)"
  shows "(v \<longrightarrow> p < p1 \<and> p1 \<le> p + 4) \<and> (\<not> v \<longrightarrow> p1 = p) \<and> (a \<longrightarrow> v) \<and> (chk \<longrightarrow> p1 \<le> e)"
  using assms unfolding UTF8CharValidate_def
  by (auto elim!: bindE_elim split: if_splits)

lemma UTF8IsValidLeadingByte_len:
  "UTF8IsValidLeadingByte buf p = Inr (v, len) \<Longrightarrow> 1 \<le> len \<and> len \<le> 6 \<and> (v \<longrightarrow> len \<le> 4)"
  by (auto simp: UTF8IsValidLeadingByte_def bindE_eq_Inr Let_def split: if_splits)

lemma cont_loop_result:
  "UTF8InvalidNrOfContinuationBytes_loop buf p cu idx m0 w0 = Inr (m, w) \<Longrightarrow>
   (m = m0 \<and> w = w0) \<or> (m \<and> (\<exists>i. idx \<le> i \<and> i < cu \<and> w = Some (p + i)))"
proof (induction buf p cu idx m0 w0 rule: UTF8InvalidNrOfContinuationBytes_loop.induct)
  case (1 buf p cu idx m0 w0)
  show ?case
  proof (cases "idx < cu")
    case False
    with "1.prems" show ?thesis
      by (simp add: UTF8InvalidNrOfContinuationBytes_loop.simps [of buf p cu idx])
  next
    case True
    from "1.prems" True obtain c where c: "UTF8IsContinuationByte buf (p + idx) = Inr c"
      and rest: "(if \<not> c then Inr (True, Some (p + idx))
          else UTF8InvalidNrOfContinuationBytes_loop buf p cu (idx + 1) m0 w0) = Inr (m, w)"
      by (auto simp: UTF8InvalidNrOfContinuationBytes_loop.simps [of buf p cu idx] bindE_eq_Inr)
    show ?thesis
    proof (cases c)
      case False
      with rest True show ?thesis by auto
    next
      case c': True
      with rest have "UTF8InvalidNrOfContinuationBytes_loop buf p cu (idx + 1) m0 w0 = Inr (m, w)" by simp
      from "1.IH" [OF True c _ this] c' show ?thesis by auto
    qed
  qed
qed

lemma UTF8InvalidNrOfContinuationBytes_result:
  assumes "UTF8InvalidNrOfContinuationBytes buf p k r False None = Inr (tr, mm, wh)"
  shows "tr = (k + 1 > r)"
    and "tr \<or> mm \<Longrightarrow> 1 \<le> r \<Longrightarrow> \<exists>q. wh = Some q \<and> p < q \<and> q \<le> p + r"
  using assms
  by (auto simp: UTF8InvalidNrOfContinuationBytes_def bindE_eq_Inr split: if_splits
      dest!: cont_loop_result)

lemma UTF8InvalidLeadingOrContinuation_result:
  assumes "UTF8InvalidLeadingOrContinuation buf p e r = Inr (b, q, r')" and "p < e"
  shows "(b \<longrightarrow> p < q \<and> q \<le> e) \<and> (\<not> b \<longrightarrow> q = p)"
proof -
  from assms(1) obtain v len where lb: "UTF8IsValidLeadingByte buf p = Inr (v, len)"
    by (auto simp: UTF8InvalidLeadingOrContinuation_def bindE_eq_Inr Let_def)
  from UTF8IsValidLeadingByte_len [OF lb] have len: "1 \<le> len" by simp
  show ?thesis
  proof (cases v)
    case False
    with assms lb len show ?thesis
      by (auto simp: UTF8InvalidLeadingOrContinuation_def bindE_eq_Inr Let_def split: if_splits)
  next
    case True
    with assms(1) lb obtain tr mm wh where
      nr: "UTF8InvalidNrOfContinuationBytes buf p (len - 1) (e - p) False None = Inr (tr, mm, wh)"
      by (auto simp: UTF8InvalidLeadingOrContinuation_def bindE_eq_Inr Let_def)
    have r1: "1 \<le> e - p" using assms(2) by simp
    show ?thesis
    proof (cases "tr \<or> mm")
      case False
      with assms(1) lb True nr show ?thesis
        by (auto simp: UTF8InvalidLeadingOrContinuation_def Let_def)
    next
      case tm: True
      from UTF8InvalidNrOfContinuationBytes_result(2) [OF nr tm r1]
      obtain q' where q': "wh = Some q'" "p < q'" "q' \<le> p + (e - p)" by blast
      with assms lb True nr tm show ?thesis
        by (auto simp: UTF8InvalidLeadingOrContinuation_def bindE_eq_Inr Let_def split: if_splits)
    qed
  qed
qed





lemma UTF8CheckErrors_result:
  assumes "UTF8CheckErrors buf p e r = Inr (p2, r2)" and "p < e"
  shows "p < p2 \<and> p2 \<le> e"
  using assms unfolding UTF8CheckErrors_def Let_def
  by (auto elim!: bindE_elim split: if_splits prod.splits dest!: UTF8InvalidLeadingOrContinuation_result)


lemma body_result:
  assumes "CheckStreamForUTF8NoBOMInternal_body chk buf stopPos st = Inr (brk, st')"
    and "ucharPtr st < stopPos"
  shows "\<not> brk" and "ucharPtr st < ucharPtr st'"
    and "chk \<Longrightarrow> ucharPtr st' \<le> stopPos"
    and "b7bitASCIIOnly st' \<Longrightarrow> b7bitASCIIOnly st"
    and "bValidUTF8 st' \<Longrightarrow> bValidUTF8 st"
    and "(b7bitASCIIOnly st \<longrightarrow> bValidUTF8 st) \<Longrightarrow> (b7bitASCIIOnly st' \<longrightarrow> bValidUTF8 st')"
  using assms unfolding CheckStreamForUTF8NoBOMInternal_body_def Let_def
  by (auto elim!: bindE_elim split: if_splits prod.splits
      dest!: UTF8CharValidate_result UTF8CheckErrors_result simp: UTF8_DETAILED_ERROR_LIST_def)

termination CheckStreamForUTF8NoBOMInternal_loop
proof (relation "measure (\<lambda>(chk, buf, stopPos, st). stopPos - ucharPtr st)")
  show "wf (measure (\<lambda>(chk, buf, stopPos, st). stopPos - ucharPtr st))" by simp
next
  fix bBufferEndCheck buf stopPos st x xa y
  assume "ucharPtr st < stopPos"
    and "CheckStreamForUTF8NoBOMInternal_body bBufferEndCheck buf stopPos st = Inr x"
    and "(xa, y) = x" and "\<not> xa"
  then show "((bBufferEndCheck, buf, stopPos, y), bBufferEndCheck, buf, stopPos, st)
          \<in> measure (\<lambda>(chk, buf, stopPos, st). stopPos - ucharPtr st)"
    using body_result(2) [of bBufferEndCheck buf stopPos st xa y] by auto
qed

declare CheckStreamForUTF8NoBOMInternal_loop.simps [simp del]

section \<open>Evaluation on concrete inputs\<close>

lemma bindE_weak_cong: "m = m' \<Longrightarrow> bindE m f = bindE m' f"
  by simp

lemmas classifier_defs =
  UTF8CharASCII7_def UTF8InvalidControlChar_def UTF8CharValid2Bytes_def
  UTF8Invalid2BytesOverlong_def UTF8CharValid3Bytes_def UTF8Invalid3BytesOverlong_def
  UTF8Invalid3BytesSurrogateHalf_def UTF8CharValid4Bytes_def UTF8Invalid4BytesOverlong_def
  UTF8InvalidCodePoint4BytesF4_def UTF8InvalidCodePoint4BytesNonF4_def
  UTF8IsContinuationByte_def byte_eq_def le_byte_def byte_le_def rd_def

lemmas scan_eval =
  classifier_defs UTF8IsValidLeadingByte_def
  UTF8InvalidNrOfContinuationBytes_def UTF8InvalidNrOfContinuationBytes_loop.simps
  UTF8InvalidLeadingOrContinuation_def UTF8CharValidate_def UTF8CheckErrors_def
  UcharSeqToBinStr_def UcharSeqToBinStr_loop.simps UcharToBinStr_def to_string.simps
  CheckStreamForUTF8NoBOMInternal_body_def CheckStreamForUTF8NoBOMInternal_loop.simps
  CheckStreamForUTF8NoBOMInternal_def CheckStreamForUTF8NoBOM_scan_def
  UTF8_TINY_MODE_SIZE_LIMIT_def UTF8_MAX_CHAR_SIZE_def UTF8_DETAILED_ERROR_LIST_def
  UTF8_SUBCLASSIFY_TOO_LONG_SEQUENCES_def

lemmas stream_eval =
  ifstream_open_def ifs_fail_def ifs_eof_def ifs_good_def ifs_clear_def ifs_tellg_def
  ifs_seekg_def ifs_seekg_end_def ifs_read_def ReadSampleToBuffer_def
  UTF8_NO_BOM_TEXT_SAMPLE_SIZE_def CheckStreamForSignature_def
  CheckStreamForSignature_loop.simps SIGNATURE_CHECK_RESULT_FAIL_def
  SIGNATURE_CHECK_RESULT_NOT_FOUND_def SIGNATURE_CHECK_RESULT_FOUND_def Let_def

section \<open>The out-of-range test for the leading byte \<open>0xF4\<close>\<close>

text \<open>
  C3. The claim: the quadruple \<open>F4 90 80 80\<close> is classified through the
  out-of-range-via-\<open>0xF4\<close> class, which matches when the leading byte is \<open>0xF4\<close> and the
  second byte lies in \<open>[0x90, 0xBF]\<close>, and the diagnostic reports the code point. The
  test of the code is \<^verbatim>\<open>0x90 <= ucharPtr[1] && 0xBF <= ucharPtr[1]\<close>, with the second
  comparison reversed: it fails on \<open>F4 90 80 80\<close>, no code point is decoded, and the
  error classifier falls through to its last case, reports an unknown error and
  advances by one byte.
\<close>

theorem UTF8CheckErrors_F4_90_80_80_unknown:
  "UTF8InvalidCodePoint4BytesF4 [0xF4, 0x90, 0x80, 0x80] 0 None = Inr (False, None) \<and>
   UTF8CheckErrors [0xF4, 0x90, 0x80, 0x80] 0 4 [] =
     Inr (1, ''Unknown UTF-8 error: checked all known UTF-8 error classes, none of them matched at 0 (assumed length=1): [11110100 10010000 10000000 10000000]\<newline>'')"
  by (simp add: scan_eval cong: bindE_weak_cong)

section \<open>Claims about the signature checks\<close>

lemma CheckStreamForSignature_loop_eq:
  "length readBuf = length signature \<Longrightarrow> idx \<le> length signature \<Longrightarrow>
   CheckStreamForSignature_loop readBuf signature idx = (drop idx readBuf \<noteq> drop idx signature)"
proof (induction readBuf signature idx rule: CheckStreamForSignature_loop.induct)
  case (1 readBuf signature idx)
  note unfold = CheckStreamForSignature_loop.simps [of readBuf signature idx]
  show ?case
  proof (cases "idx < length signature")
    case False
    with "1.prems" show ?thesis
      by (subst unfold) simp
  next
    case True
    with "1.prems" have d: "drop idx readBuf = readBuf ! idx # drop (Suc idx) readBuf"
      "drop idx signature = signature ! idx # drop (Suc idx) signature"
      by (simp_all add: Cons_nth_drop_Suc)
    show ?thesis
    proof (cases "readBuf ! idx = signature ! idx")
      case False
      with True d show ?thesis
        by (subst unfold) simp
    next
      case eq: True
      with True "1.IH" "1.prems" d show ?thesis
        by (subst unfold) simp
    qed
  qed
qed

lemma ifs_read_good:
  "\<not> ifs_failbit ifs \<Longrightarrow> \<not> ifs_eofbit ifs \<Longrightarrow>
   ifs_read ifs n =
     (take n (drop (ifs_pos ifs) (ifs_content ifs)),
      ifs\<lparr> ifs_pos := ifs_pos ifs + length (take n (drop (ifs_pos ifs) (ifs_content ifs))),
           ifs_failbit := (length (take n (drop (ifs_pos ifs) (ifs_content ifs))) < n),
           ifs_eofbit := (length (take n (drop (ifs_pos ifs) (ifs_content ifs))) < n) \<rparr>)"
  by (simp add: ifs_read_def ifs_good_def Let_def)

lemma CheckStreamForSignature_at_start:
  assumes "fst (ifs_tellg ifs) = 0"
  shows "CheckStreamForSignature ifs r signature =
     (if take (length signature) (ifs_content ifs) = signature
      then (SIGNATURE_CHECK_RESULT_FOUND, ifs\<lparr>ifs_pos := length signature\<rparr>, r)
      else (SIGNATURE_CHECK_RESULT_NOT_FOUND, ifs, r))"
proof -
  from assms have g: "\<not> ifs_failbit ifs" "\<not> ifs_eofbit ifs" "ifs_pos ifs = 0"
    by (auto simp: ifs_tellg_def ifs_good_def split: if_splits)
  define rb where "rb = take (length signature) (ifs_content ifs)"
  have rd: "ifs_read ifs (length signature) =
     (rb, ifs\<lparr> ifs_pos := length rb, ifs_failbit := (length rb < length signature),
           ifs_eofbit := (length rb < length signature) \<rparr>)"
    using g by (simp add: ifs_read_good rb_def)
  have tell: "ifs_tellg ifs = (0, ifs)"
    using g by (simp add: ifs_tellg_def ifs_good_def)
  have le: "length rb \<le> length signature" by (simp add: rb_def)
  have restore: "ifs\<lparr>ifs_pos := 0, ifs_failbit := False, ifs_eofbit := False\<rparr> = ifs"
    using g by simp
  show ?thesis
  proof (cases "length rb < length signature")
    case True
    then have "rb \<noteq> signature" by auto
    with True g restore show ?thesis unfolding rb_def [symmetric]
      by (simp add: CheckStreamForSignature_def ifs_fail_def ifs_eof_def tell rd
          ifs_clear_def ifs_seekg_def Let_def)
  next
    case False
    with le have len: "length rb = length signature" by simp
    from CheckStreamForSignature_loop_eq [OF len, of 0]
    have loop: "CheckStreamForSignature_loop rb signature 0 = (rb \<noteq> signature)" by simp
    from False g loop len restore show ?thesis unfolding rb_def [symmetric]
      by (simp add: CheckStreamForSignature_def ifs_fail_def ifs_eof_def tell rd
          ifs_clear_def ifs_seekg_def Let_def)
  qed
qed

text \<open>
  C8. On a stream positioned at offset 0 (\<^verbatim>\<open>tellg()\<close> returns 0, which is what the
  function asserts), \<^verbatim>\<open>CheckStreamForUTF8BOM\<close> returns true exactly when the first
  three bytes are \<open>EF BB BF\<close>, and then leaves the stream at offset 3, just behind
  the signature; otherwise (a differing byte such as \<open>EF BB 00\<close>, or fewer than three
  bytes) it returns false and leaves the stream as it was, at offset 0.
\<close>

theorem CheckStreamForUTF8BOM_exact:
  assumes "fst (ifs_tellg ifs) = 0"
  shows "CheckStreamForUTF8BOM ifs r =
     (if take 3 (ifs_content ifs) = [0xEF, 0xBB, 0xBF]
      then Inr (True, ifs\<lparr>ifs_pos := 3\<rparr>, r @ ''UTF-8 BOM found\<newline>'')
      else Inr (False, ifs, r @ ''No UTF-8 BOM found\<newline>''))"
proof -
  from assms have t: "ifs_tellg ifs = (0, ifs)"
    by (auto simp: ifs_tellg_def split: if_splits)
  show ?thesis
    by (simp add: CheckStreamForUTF8BOM_def t CheckStreamForSignature_at_start [OF assms]
        SIGNATURE_CHECK_RESULT_FAIL_def SIGNATURE_CHECK_RESULT_NOT_FOUND_def
        SIGNATURE_CHECK_RESULT_FOUND_def numeral_3_eq_3 numeral_2_eq_2)
qed

theorem CheckStreamForUTF8BOM_exact_witness:
  "fst (ifs_tellg (ifstream_open [0xEF, 0xBB, 0xBF, 0x41])) = 0 \<and>
   CheckStreamForUTF8BOM (ifstream_open [0xEF, 0xBB, 0xBF, 0x41]) [] =
     Inr (True, (ifstream_open [0xEF, 0xBB, 0xBF, 0x41])\<lparr>ifs_pos := 3\<rparr>, ''UTF-8 BOM found\<newline>'') \<and>
   fst (ifs_tellg (ifstream_open [0xEF, 0xBB, 0x00])) = 0 \<and>
   CheckStreamForUTF8BOM (ifstream_open [0xEF, 0xBB, 0x00]) [] =
     Inr (False, ifstream_open [0xEF, 0xBB, 0x00], ''No UTF-8 BOM found\<newline>'')"
proof -
  have h1: "fst (ifs_tellg (ifstream_open [0xEF, 0xBB, 0xBF, 0x41])) = 0"
    by (simp add: ifs_tellg_def ifs_good_def ifstream_open_def)
  have h2: "fst (ifs_tellg (ifstream_open [0xEF, 0xBB, 0x00])) = 0"
    by (simp add: ifs_tellg_def ifs_good_def ifstream_open_def)
  show ?thesis
    using h1 h2 CheckStreamForUTF8BOM_exact [OF h1, of "[]"] CheckStreamForUTF8BOM_exact [OF h2, of "[]"]
    by (simp add: ifstream_open_def)
qed

text \<open>
  C7, as amended. On a stream positioned at offset 0, \<^verbatim>\<open>CheckStreamForUTF16BOM\<close>
  returns true with \<^verbatim>\<open>bLittleEndian\<close> set to true when the stream starts with
  \<open>FF FE\<close>; true with \<^verbatim>\<open>bLittleEndian\<close> set to false when it starts with \<open>FE FF\<close>;
  and otherwise false, the stream back at offset 0 and \<^verbatim>\<open>bLittleEndian\<close> holding
  whatever value the caller passed in: the function assigns it no default.
\<close>

theorem CheckStreamForUTF16BOM_precedence:
  assumes "fst (ifs_tellg ifs) = 0"
  shows "CheckStreamForUTF16BOM ifs r bLittleEndian =
     (if take 2 (ifs_content ifs) = [0xFF, 0xFE]
      then Inr (True, True, ifs\<lparr>ifs_pos := 2\<rparr>, r @ ''UTF-16 LE BOM found\<newline>'')
      else if take 2 (ifs_content ifs) = [0xFE, 0xFF]
      then Inr (True, False, ifs\<lparr>ifs_pos := 2\<rparr>, r @ ''UTF-16 BE BOM found\<newline>'')
      else Inr (False, bLittleEndian, ifs, r @ ''No UTF-16 BOM found\<newline>''))"
proof -
  from assms have t: "ifs_tellg ifs = (0, ifs)"
    by (auto simp: ifs_tellg_def split: if_splits)
  show ?thesis
    by (simp add: CheckStreamForUTF16BOM_def t CheckStreamForSignature_at_start [OF assms]
        SIGNATURE_CHECK_RESULT_FAIL_def SIGNATURE_CHECK_RESULT_NOT_FOUND_def
        SIGNATURE_CHECK_RESULT_FOUND_def numeral_3_eq_3 numeral_2_eq_2)
qed

theorem CheckStreamForUTF16BOM_precedence_witness:
  "fst (ifs_tellg (ifstream_open [0xFE, 0xFF, 0x00, 0x41])) = 0 \<and>
   CheckStreamForUTF16BOM (ifstream_open [0xFE, 0xFF, 0x00, 0x41]) [] True =
     Inr (True, False, (ifstream_open [0xFE, 0xFF, 0x00, 0x41])\<lparr>ifs_pos := 2\<rparr>,
          ''UTF-16 BE BOM found\<newline>'')"
proof -
  have h: "fst (ifs_tellg (ifstream_open [0xFE, 0xFF, 0x00, 0x41])) = 0"
    by (simp add: ifs_tellg_def ifs_good_def ifstream_open_def)
  show ?thesis
    using h CheckStreamForUTF16BOM_precedence [OF h, of "[]" True]
    by (simp add: ifstream_open_def)
qed

text \<open>
  C7 as stated fails on the stream \<open>00 00\<close>: the check returns false and the flag
  comes back true when the caller's variable held true and false when it held
  false, so it is not left at one defined default.
\<close>

theorem CheckStreamForUTF16BOM_no_default:
  "CheckStreamForUTF16BOM (ifstream_open [0x00, 0x00]) [] True =
     Inr (False, True, ifstream_open [0x00, 0x00], ''No UTF-16 BOM found\<newline>'') \<and>
   CheckStreamForUTF16BOM (ifstream_open [0x00, 0x00]) [] False =
     Inr (False, False, ifstream_open [0x00, 0x00], ''No UTF-16 BOM found\<newline>'')"
  by (simp add: CheckStreamForUTF16BOM_def stream_eval)

section \<open>Claims about the continuation verifier\<close>

lemma UTF8IsContinuationByte_shape:
  "q < length buf \<Longrightarrow> UTF8IsContinuationByte buf q = Inr (continuation_shape (buf ! q))"
  by (simp add: UTF8IsContinuationByte_def rd_def continuation_shape_def)

lemma cont_loop_all:
  assumes "p + cu \<le> length buf"
    and "\<forall>i. idx \<le> i \<and> i < cu \<longrightarrow> continuation_shape (buf ! (p + i))"
  shows "UTF8InvalidNrOfContinuationBytes_loop buf p cu idx m0 w0 = Inr (m0, w0)"
  using assms
proof (induction buf p cu idx m0 w0 rule: UTF8InvalidNrOfContinuationBytes_loop.induct)
  case (1 buf p cu idx m0 w0)
  note unfold = UTF8InvalidNrOfContinuationBytes_loop.simps [of buf p cu idx m0 w0]
  show ?case
  proof (cases "idx < cu")
    case False
    then show ?thesis by (subst unfold) simp
  next
    case True
    with "1.prems" have c: "UTF8IsContinuationByte buf (p + idx) = Inr True"
      by (simp add: UTF8IsContinuationByte_shape)
    have "\<forall>i. idx + 1 \<le> i \<and> i < cu \<longrightarrow> continuation_shape (buf ! (p + i))"
      using "1.prems"(2) by simp
    from "1.IH" [OF True c _ "1.prems"(1) this]
    have "UTF8InvalidNrOfContinuationBytes_loop buf p cu (idx + 1) m0 w0 = Inr (m0, w0)" by simp
    with True c show ?thesis by (subst unfold) simp
  qed
qed

lemma cont_loop_mismatch:
  assumes "p + cu \<le> length buf" and "idx \<le> i" and "i < cu"
    and "\<not> continuation_shape (buf ! (p + i))"
    and "\<forall>j. idx \<le> j \<and> j < i \<longrightarrow> continuation_shape (buf ! (p + j))"
  shows "UTF8InvalidNrOfContinuationBytes_loop buf p cu idx m0 w0 = Inr (True, Some (p + i))"
  using assms
proof (induction buf p cu idx m0 w0 rule: UTF8InvalidNrOfContinuationBytes_loop.induct)
  case (1 buf p cu idx m0 w0)
  note unfold = UTF8InvalidNrOfContinuationBytes_loop.simps [of buf p cu idx m0 w0]
  from "1.prems" have lt: "idx < cu" by simp
  with "1.prems" have c: "UTF8IsContinuationByte buf (p + idx) = Inr (continuation_shape (buf ! (p + idx)))"
    by (simp add: UTF8IsContinuationByte_shape)
  show ?case
  proof (cases "i = idx")
    case True
    with "1.prems" lt c show ?thesis by (subst unfold) simp
  next
    case False
    with "1.prems" have i: "idx + 1 \<le> i" and ok: "continuation_shape (buf ! (p + idx))" by simp_all
    have "\<forall>j. idx + 1 \<le> j \<and> j < i \<longrightarrow> continuation_shape (buf ! (p + j))"
      using "1.prems"(5) by simp
    from "1.IH" [OF lt c _ "1.prems"(1) i "1.prems"(3) "1.prems"(4) this] ok
    have "UTF8InvalidNrOfContinuationBytes_loop buf p cu (idx + 1) m0 w0 = Inr (True, Some (p + i))"
      by simp
    with lt c ok show ?thesis by (subst unfold) simp
  qed
qed

text \<open>
  C4, as amended. Let the verifier be called with \<open>k\<close> required continuation bytes at a
  leading byte that has \<open>r\<close> bytes left in the buffer, itself included, and let
  \<open>k + 1 > r\<close>. Then the result is truncated; only the bytes at offsets \<open>1\<close> to \<open>r - 1\<close>
  are tested (the buffer ends at offset \<open>r\<close> and no read faults); and the resume
  position is the end of the buffer when all of them are continuation bytes, and
  otherwise the first of them that is not one, with the mismatch flag set as well.
\<close>

theorem UTF8InvalidNrOfContinuationBytes_truncated:
  assumes "k + 1 > r" and "length buf = p + r"
  shows "\<exists>mm q. UTF8InvalidNrOfContinuationBytes buf p k r False None = Inr (True, mm, Some q) \<and>
     (if \<forall>i. 1 \<le> i \<and> i < r \<longrightarrow> continuation_shape (buf ! (p + i))
      then \<not> mm \<and> q = p + r
      else mm \<and> p < q \<and> q < p + r \<and> \<not> continuation_shape (buf ! q) \<and>
           (\<forall>j. p < j \<and> j < q \<longrightarrow> continuation_shape (buf ! j)))"
proof (cases "\<forall>i. 1 \<le> i \<and> i < r \<longrightarrow> continuation_shape (buf ! (p + i))")
  case True
  from assms(2) have len: "p + r \<le> length buf" by simp
  from cont_loop_all [OF len True] assms(1)
  have "UTF8InvalidNrOfContinuationBytes buf p k r False None = Inr (True, False, Some (p + r))"
    by (simp add: UTF8InvalidNrOfContinuationBytes_def)
  with True show ?thesis
    by (intro exI [of _ False] exI [of _ "p + r"]) simp
next
  case False
  from assms(2) have len: "p + r \<le> length buf" by simp
  from False have "\<exists>i. 1 \<le> i \<and> i < r \<and> \<not> continuation_shape (buf ! (p + i))" by simp
  then obtain i where i: "1 \<le> i \<and> i < r \<and> \<not> continuation_shape (buf ! (p + i))"
    and least: "\<forall>j<i. \<not> (1 \<le> j \<and> j < r \<and> \<not> continuation_shape (buf ! (p + j)))"
    unfolding exists_least_iff [of "\<lambda>i. 1 \<le> i \<and> i < r \<and> \<not> continuation_shape (buf ! (p + i))"]
    by blast
  have before: "\<forall>j. 1 \<le> j \<and> j < i \<longrightarrow> continuation_shape (buf ! (p + j))"
  proof (intro allI impI)
    fix j assume j: "1 \<le> j \<and> j < i"
    with i have "j < r" by simp
    with least j show "continuation_shape (buf ! (p + j))" by blast
  qed
  from i have i1: "1 \<le> i" and i2: "i < r" and i3: "\<not> continuation_shape (buf ! (p + i))"
    by simp_all
  from cont_loop_mismatch [OF len i1 i2 i3 before] assms(1)
  have res: "UTF8InvalidNrOfContinuationBytes buf p k r False None = Inr (True, True, Some (p + i))"
    by (simp add: UTF8InvalidNrOfContinuationBytes_def)
  have "\<forall>j. p < j \<and> j < p + i \<longrightarrow> continuation_shape (buf ! j)"
  proof (intro allI impI)
    fix j assume j: "p < j \<and> j < p + i"
    then have "1 \<le> j - p \<and> j - p < i" by arith
    with before have "continuation_shape (buf ! (p + (j - p)))" by blast
    with j show "continuation_shape (buf ! j)" by simp
  qed
  with res False i1 i2 i3 show ?thesis
    by (intro exI [of _ True] exI [of _ "p + i"]) simp
qed

theorem UTF8InvalidNrOfContinuationBytes_truncated_witness:
  "(2::nat) + 1 > 2 \<and> length [0xE2, 0x82 :: utf8_checking_unit_t] = 0 + 2 \<and>
   UTF8InvalidNrOfContinuationBytes [0xE2, 0x82] 0 2 2 False None = Inr (True, False, Some 2)"
proof -
  have h1: "(2::nat) + 1 > 2" by simp
  have h2: "length [0xE2, 0x82 :: utf8_checking_unit_t] = 0 + 2" by simp
  have all: "\<forall>i. 1 \<le> i \<and> i < (2::nat) \<longrightarrow> continuation_shape ([0xE2, 0x82] ! (0 + i))"
  proof (intro allI impI)
    fix i :: nat assume "1 \<le> i \<and> i < 2"
    then have "i = 1" by arith
    then show "continuation_shape ([0xE2, 0x82] ! (0 + i))" by (simp add: continuation_shape_def)
  qed
  from UTF8InvalidNrOfContinuationBytes_truncated [OF h1 h2] all
  have "UTF8InvalidNrOfContinuationBytes [0xE2, 0x82] 0 2 2 False None = Inr (True, False, Some 2)"
    by auto
  with h1 h2 show ?thesis by blast
qed

text \<open>
  C4 as stated fails on the buffer \<open>E2 41\<close>: the leading byte asks for two
  continuation bytes, one byte is left behind it, the result is truncated, and
  the resume position is offset 1 (the byte \<open>41\<close>), not the end of the buffer at
  offset 2. The caller, \<^verbatim>\<open>UTF8InvalidLeadingOrContinuation\<close>, moves the cursor there.
\<close>

theorem UTF8InvalidNrOfContinuationBytes_truncated_resumes_inside:
  "UTF8InvalidNrOfContinuationBytes [0xE2, 0x41] 0 2 2 False None = Inr (True, True, Some 1) \<and>
   UTF8InvalidLeadingOrContinuation [0xE2, 0x41] 0 2 [] =
     Inr (True, 1, ''Invalid nr of continuation bytes after leading byte [possible truncation] at 0: [11100010 01000001]<end-of-buffer>\<newline>'')"
  by (simp add: scan_eval Let_def cong: bindE_weak_cong)

section \<open>Absence of faults\<close>

text \<open>No step faults when the positions it is given lie inside the buffer.\<close>

lemma no_fault_Inr [simp]: "\<not> isl (Inr x)" by simp

lemma no_fault_bindE:
  "\<not> isl m \<Longrightarrow> (\<And>x. m = Inr x \<Longrightarrow> \<not> isl (f x)) \<Longrightarrow> \<not> isl (bindE m f)"
  by (cases m) simp_all

lemma no_fault_andE: "\<not> isl a \<Longrightarrow> \<not> isl b \<Longrightarrow> \<not> isl (andE a b)"
  by (cases a) simp_all

lemma no_fault_orE: "\<not> isl a \<Longrightarrow> \<not> isl b \<Longrightarrow> \<not> isl (orE a b)"
  by (cases a) simp_all

lemma no_fault_notE: "\<not> isl a \<Longrightarrow> \<not> isl (notE a)"
  by (cases a) simp_all

lemma no_fault_rd: "q < length buf \<Longrightarrow> \<not> isl (rd buf q)"
  by (simp add: rd_def)

lemma no_fault_byte_tests:
  "q < length buf \<Longrightarrow> \<not> isl (byte_eq buf q c)"
  "q < length buf \<Longrightarrow> \<not> isl (le_byte c buf q)"
  "q < length buf \<Longrightarrow> \<not> isl (byte_le buf q c)"
  by (simp_all add: byte_tests_in)

lemmas no_fault_intros =
  no_fault_bindE no_fault_andE no_fault_orE no_fault_notE no_fault_rd no_fault_byte_tests

lemma no_fault_classifiers:
  "p < length buf \<Longrightarrow> \<not> isl (UTF8CharASCII7 buf p)"
  "p < length buf \<Longrightarrow> \<not> isl (UTF8InvalidControlChar buf p)"
  "p + 1 < length buf \<Longrightarrow> \<not> isl (UTF8CharValid2Bytes buf p)"
  "p < length buf \<Longrightarrow> \<not> isl (UTF8Invalid2BytesOverlong buf p)"
  "p + 2 < length buf \<Longrightarrow> \<not> isl (UTF8CharValid3Bytes buf p)"
  "p + 1 < length buf \<Longrightarrow> \<not> isl (UTF8Invalid3BytesOverlong buf p)"
  "p + 1 < length buf \<Longrightarrow> \<not> isl (UTF8Invalid3BytesSurrogateHalf buf p)"
  "p + 3 < length buf \<Longrightarrow> \<not> isl (UTF8CharValid4Bytes buf p)"
  "p + 1 < length buf \<Longrightarrow> \<not> isl (UTF8Invalid4BytesOverlong buf p)"
  "p < length buf \<Longrightarrow> \<not> isl (UTF8InvalidCodePoint4BytesNonF4 buf p)"
  "p < length buf \<Longrightarrow> \<not> isl (UTF8IsContinuationByte buf p)"
  "p < length buf \<Longrightarrow> \<not> isl (UTF8IsValidLeadingByte buf p)"
  unfolding UTF8CharASCII7_def UTF8InvalidControlChar_def UTF8CharValid2Bytes_def
    UTF8Invalid2BytesOverlong_def UTF8CharValid3Bytes_def UTF8Invalid3BytesOverlong_def
    UTF8Invalid3BytesSurrogateHalf_def UTF8CharValid4Bytes_def UTF8Invalid4BytesOverlong_def
    UTF8InvalidCodePoint4BytesNonF4_def UTF8IsContinuationByte_def UTF8IsValidLeadingByte_def
  by (simp_all add: byte_tests_in rd_def Let_def)

lemma no_fault_F4:
  "p + 3 < length buf \<Longrightarrow> \<not> isl (UTF8InvalidCodePoint4BytesF4 buf p cp)"
  unfolding UTF8InvalidCodePoint4BytesF4_def
  by (simp add: byte_tests_in rd_def)

lemma no_fault_binstr_loop:
  "q + len \<le> length buf \<Longrightarrow> \<not> isl (UcharSeqToBinStr_loop buf q len i r)"
proof (induction buf q len i r rule: UcharSeqToBinStr_loop.induct)
  case (1 buf q len i retval)
  show ?case
  proof (cases "i < len")
    case False
    then show ?thesis by (subst UcharSeqToBinStr_loop.simps) simp
  next
    case True
    with "1.prems" have r: "rd buf (q + i) = Inr (buf ! (q + i))" by (simp add: rd_def)
    from "1.IH" [OF True r "1.prems"] True r show ?thesis
      by (subst UcharSeqToBinStr_loop.simps) simp
  qed
qed

lemma no_fault_binstr:
  assumes "q + len \<le> length buf"
  shows "\<not> isl (UcharSeqToBinStr buf q len)"
proof (cases "len = 0")
  case True
  then show ?thesis by (simp add: UcharSeqToBinStr_def)
next
  case False
  with assms have r: "rd buf q = Inr (buf ! q)" by (simp add: rd_def)
  from False r show ?thesis
    by (simp add: UcharSeqToBinStr_def no_fault_bindE no_fault_binstr_loop [OF assms])
qed

lemma no_fault_cont_loop:
  "p + cu \<le> length buf \<Longrightarrow> \<not> isl (UTF8InvalidNrOfContinuationBytes_loop buf p cu idx m w)"
proof (induction buf p cu idx m w rule: UTF8InvalidNrOfContinuationBytes_loop.induct)
  case (1 buf p cu idx m w)
  show ?case
  proof (cases "idx < cu")
    case False
    then show ?thesis by (subst UTF8InvalidNrOfContinuationBytes_loop.simps) simp
  next
    case True
    with "1.prems" have c: "UTF8IsContinuationByte buf (p + idx) = Inr (continuation_shape (buf ! (p + idx)))"
      by (simp add: UTF8IsContinuationByte_shape)
    show ?thesis
    proof (cases "continuation_shape (buf ! (p + idx))")
      case False
      with True c show ?thesis by (subst UTF8InvalidNrOfContinuationBytes_loop.simps) simp
    next
      case ok: True
      from "1.IH" [OF True c _ "1.prems"] ok True c show ?thesis
        by (subst UTF8InvalidNrOfContinuationBytes_loop.simps) simp
    qed
  qed
qed

lemma no_fault_nr_cont:
  "p + r \<le> length buf \<Longrightarrow> \<not> isl (UTF8InvalidNrOfContinuationBytes buf p k r m w)"
  unfolding UTF8InvalidNrOfContinuationBytes_def
  by (simp add: no_fault_bindE no_fault_cont_loop split: prod.splits)

lemma not_isl_iff: "\<not> isl m \<longleftrightarrow> (\<exists>x. m = Inr x)"
  by (cases m) simp_all

lemma no_fault_leading_or_continuation:
  assumes "p < e" and "e \<le> length buf"
  shows "\<not> isl (UTF8InvalidLeadingOrContinuation buf p e r)"
proof -
  from assms have "\<not> isl (UTF8IsValidLeadingByte buf p)"
    by (simp add: no_fault_classifiers)
  then obtain v len where lb: "UTF8IsValidLeadingByte buf p = Inr (v, len)"
    by (auto simp: not_isl_iff)
  from UTF8IsValidLeadingByte_len [OF lb] have len: "1 \<le> len" by simp
  show ?thesis
  proof (cases v)
    case False
    have "\<not> isl (UcharSeqToBinStr buf p (e - p))"
      using assms by (intro no_fault_binstr) simp
    moreover have "\<not> e - p < len \<Longrightarrow> \<not> isl (UcharSeqToBinStr buf p len)"
      using assms by (intro no_fault_binstr) simp
    ultimately show ?thesis using False lb
      by (simp add: UTF8InvalidLeadingOrContinuation_def Let_def no_fault_bindE)
  next
    case True
    have "\<not> isl (UTF8InvalidNrOfContinuationBytes buf p (len - 1) (e - p) False None)"
      using assms by (intro no_fault_nr_cont) simp
    then obtain tr mm wh where
      nr: "UTF8InvalidNrOfContinuationBytes buf p (len - 1) (e - p) False None = Inr (tr, mm, wh)"
      by (auto simp: not_isl_iff)
    have r1: "1 \<le> e - p" using assms(1) by simp
    note tr = UTF8InvalidNrOfContinuationBytes_result(1) [OF nr]
    have b1: "\<not> isl (UcharSeqToBinStr buf p (e - p))"
      using assms by (intro no_fault_binstr) simp
    show ?thesis
    proof (cases "tr \<or> mm")
      case False
      with lb True nr show ?thesis
        by (simp add: UTF8InvalidLeadingOrContinuation_def Let_def)
    next
      case tm: True
      from UTF8InvalidNrOfContinuationBytes_result(2) [OF nr tm r1]
      obtain q where q: "wh = Some q" by blast
      have b2: "\<not> tr \<Longrightarrow> \<not> isl (UcharSeqToBinStr buf p len)"
        using assms tr len by (intro no_fault_binstr) simp
      from lb True nr q b1 b2 show ?thesis
        by (simp add: UTF8InvalidLeadingOrContinuation_def Let_def no_fault_bindE)
    qed
  qed
qed

lemma no_fault_validate:
  assumes "chk \<longrightarrow> p < e \<and> e \<le> length buf" and "\<not> chk \<longrightarrow> p + 3 < length buf"
  shows "\<not> isl (UTF8CharValidate chk buf p e r)"
proof (cases chk)
  case True
  with assms have "p < e" "e \<le> length buf" by simp_all
  with True show ?thesis
    unfolding UTF8CharValidate_def
    by (simp add: no_fault_bindE no_fault_classifiers)
next
  case False
  with assms have "p + 3 < length buf" by simp
  with False show ?thesis
    unfolding UTF8CharValidate_def
    by (simp add: no_fault_bindE no_fault_classifiers)
qed


lemma no_fault_if: "(c \<Longrightarrow> \<not> isl a) \<Longrightarrow> (\<not> c \<Longrightarrow> \<not> isl b) \<Longrightarrow> \<not> isl (if c then a else b)"
  by simp

lemma no_fault_check_errors:
  assumes "p < e" and "e \<le> length buf"
  shows "\<not> isl (UTF8CheckErrors buf p e r)"
proof -
  from no_fault_leading_or_continuation [OF assms, of r]
  obtain b q r' where lc: "UTF8InvalidLeadingOrContinuation buf p e r = Inr (b, q, r')"
    by (auto simp: not_isl_iff)
  note res = UTF8InvalidLeadingOrContinuation_result [OF lc assms(1)]
  have guard: "\<not> int e - 1 < int p" using assms(1) by simp
  show ?thesis
  proof (cases b)
    case True
    with lc guard show ?thesis by (simp add: UTF8CheckErrors_def Let_def)
  next
    case False
    with res have q: "q = p" by simp
    have rest: "\<not> isl (bindE (UTF8InvalidLeadingOrContinuation buf p e r) f)"
      if "\<not> isl (f (False, p, r'))" for f :: "bool \<times> nat \<times> string \<Rightarrow> fault + nat \<times> string"
      using that lc False q by simp
    show ?thesis
      unfolding UTF8CheckErrors_def Let_def using guard assms
      apply (simp only: if_False)
      apply (rule rest)
      apply (simp only: prod.case if_False)
      apply (intro no_fault_bindE no_fault_if no_fault_classifiers no_fault_binstr no_fault_F4 no_fault_Inr)
      apply (simp_all only: prod.case split: prod.splits)
      apply (intro allI impI)
      apply (intro no_fault_bindE no_fault_if no_fault_classifiers no_fault_binstr no_fault_F4 no_fault_Inr)
      apply simp_all
      apply arith
      done
  qed
qed


lemma no_fault_body:
  assumes "ucharPtr st < stopPos"
    and "if chk then stopPos \<le> length buf else stopPos + 3 \<le> length buf"
  shows "\<not> isl (CheckStreamForUTF8NoBOMInternal_body chk buf stopPos st)"
proof -
  have "\<not> isl (UTF8CharValidate chk buf (ucharPtr st) stopPos (reason st))"
    using assms by (intro no_fault_validate) (auto split: if_splits)
  then obtain p1 v a r1 where
    val: "UTF8CharValidate chk buf (ucharPtr st) stopPos (reason st) = Inr (p1, v, a, r1)"
    by (auto simp: not_isl_iff)
  note res = UTF8CharValidate_result [OF val]
  show ?thesis
  proof (cases v)
    case True
    with val show ?thesis
      by (simp add: CheckStreamForUTF8NoBOMInternal_body_def Let_def)
  next
    case False
    with res have "p1 = ucharPtr st" by simp
    with assms have "\<not> isl (UTF8CheckErrors buf p1 stopPos r1)"
      by (intro no_fault_check_errors) (auto split: if_splits)
    with val False show ?thesis
      by (simp add: CheckStreamForUTF8NoBOMInternal_body_def Let_def no_fault_bindE
          UTF8_DETAILED_ERROR_LIST_def split: prod.splits)
  qed
qed

lemma body_step:
  assumes "ucharPtr st < stopPos"
    and "if chk then stopPos \<le> length buf else stopPos + 3 \<le> length buf"
  obtains st' where "CheckStreamForUTF8NoBOMInternal_body chk buf stopPos st = Inr (False, st')"
    and "ucharPtr st < ucharPtr st'"
proof -
  from no_fault_body [OF assms] obtain brk st' where
    b: "CheckStreamForUTF8NoBOMInternal_body chk buf stopPos st = Inr (brk, st')"
    by (auto simp: not_isl_iff)
  from body_result(1,2) [OF b assms(1)] b that show ?thesis by simp
qed

lemma no_fault_loop:
  assumes "if chk then stopPos \<le> length buf else stopPos + 3 \<le> length buf"
  shows "\<not> isl (CheckStreamForUTF8NoBOMInternal_loop chk buf stopPos st)"
  using assms
proof (induction chk buf stopPos st rule: CheckStreamForUTF8NoBOMInternal_loop.induct)
  case (1 chk buf stopPos st)
  show ?case
  proof (cases "ucharPtr st < stopPos")
    case False
    then show ?thesis by (subst CheckStreamForUTF8NoBOMInternal_loop.simps) simp
  next
    case True
    from body_step [OF True "1.prems"] obtain st' where
      b: "CheckStreamForUTF8NoBOMInternal_body chk buf stopPos st = Inr (False, st')" by blast
    from "1.IH" [OF True b refl _ "1.prems"]
    have "\<not> isl (CheckStreamForUTF8NoBOMInternal_loop chk buf stopPos st')" by simp
    with True b show ?thesis
      by (subst CheckStreamForUTF8NoBOMInternal_loop.simps) simp
  qed
qed

section \<open>Claims about the scan as a whole\<close>

lemma ReadSampleToBuffer_open:
  "ReadSampleToBuffer (ifstream_open buf) = Inr (buf, length buf, length buf, ifstream_open buf)"
  by (simp add: ReadSampleToBuffer_def ifstream_open_def ifs_tellg_def ifs_good_def
      ifs_seekg_end_def ifs_seekg_def ifs_read_def ifs_clear_def Let_def
      UTF8_NO_BOM_TEXT_SAMPLE_SIZE_def)

lemma scan_call_bounds:
  "scan_call chk buf stopPos \<Longrightarrow>
   (if chk then stopPos \<le> length buf else stopPos + 3 \<le> length buf) \<and> stopPos \<le> length buf"
  by (auto simp: scan_call_def UTF8_TINY_MODE_SIZE_LIMIT_def UTF8_MAX_CHAR_SIZE_def split: if_splits)

lemma scan_call_scan:
  "scan_call chk buf stopPos \<Longrightarrow>
   CheckStreamForUTF8NoBOM_scan buf (length buf) r0 =
     CheckStreamForUTF8NoBOMInternal chk buf stopPos
       (if chk then r0 @ ''text is shorter than a predefined limit, checking entire buffer\<newline>''
        else r0)"
  by (auto simp: scan_call_def CheckStreamForUTF8NoBOM_scan_def split: if_splits)

lemma scan_call_ex: "\<exists>chk stopPos. scan_call chk buf stopPos"
  by (cases "length buf \<ge> UTF8_TINY_MODE_SIZE_LIMIT") (auto simp: scan_call_def)

text \<open>
  C5. A read outside the buffer is the fault \<open>OutOfBoundsRead\<close>, and the result of
  a step is \<open>Inr\<close> only when no fault occurred. For every sample,
  \<^verbatim>\<open>CheckStreamForUTF8NoBOM\<close> returns without a fault, and so does the scan in the
  mode it is called in: in the bounds-checked mode each multi-byte test follows
  a comparison of the cursor with the end of the buffer, in the unchecked mode
  the scan stops four bytes before the end. At every position of a buffer, also
  the last one, the bounds-checked validation and the error classifier return
  without a fault.
\<close>

theorem scan_reads_inside_buffer:
  "\<not> isl (CheckStreamForUTF8NoBOM (ifstream_open buf) r0) \<and>
   (\<forall>chk stopPos. scan_call chk buf stopPos \<longrightarrow>
      \<not> isl (CheckStreamForUTF8NoBOMInternal chk buf stopPos r0)) \<and>
   (\<forall>p < length buf.
      \<not> isl (UTF8CharValidate True buf p (length buf) r0) \<and>
      \<not> isl (UTF8CheckErrors buf p (length buf) r0))"
proof (intro conjI allI impI)
  fix chk stopPos assume "scan_call chk buf stopPos"
  then show "\<not> isl (CheckStreamForUTF8NoBOMInternal chk buf stopPos r0)"
    unfolding CheckStreamForUTF8NoBOMInternal_def
    by (intro no_fault_loop) (simp add: scan_call_bounds)
next
  fix p assume "p < length buf"
  then show "\<not> isl (UTF8CharValidate True buf p (length buf) r0)"
    by (intro no_fault_validate) simp_all
next
  fix p assume "p < length buf"
  then show "\<not> isl (UTF8CheckErrors buf p (length buf) r0)"
    by (intro no_fault_check_errors) simp_all
next
  obtain chk stopPos where c: "scan_call chk buf stopPos" using scan_call_ex by blast
  let ?r = "if chk then r0 @ ''text is shorter than a predefined limit, checking entire buffer\<newline>'' else r0"
  have "\<not> isl (CheckStreamForUTF8NoBOMInternal chk buf stopPos ?r)"
    unfolding CheckStreamForUTF8NoBOMInternal_def
    using c by (intro no_fault_loop) (simp add: scan_call_bounds)
  then have "\<not> isl (CheckStreamForUTF8NoBOM_scan buf (length buf) r0)"
    by (simp add: scan_call_scan [OF c])
  then obtain st where "CheckStreamForUTF8NoBOM_scan buf (length buf) r0 = Inr st"
    by (auto simp: not_isl_iff)
  then show "\<not> isl (CheckStreamForUTF8NoBOM (ifstream_open buf) r0)"
    by (simp add: CheckStreamForUTF8NoBOM_def ReadSampleToBuffer_open Let_def)
qed

lemma scan_after_invariant:
  "scan_after chk buf stopPos r0 n st \<Longrightarrow>
   n \<le> ucharPtr st \<and> n \<le> stopPos \<and> (b7bitASCIIOnly st \<longrightarrow> bValidUTF8 st)"
proof (induction rule: scan_after.induct)
  case scan_start
  show ?case by simp
next
  case (scan_iterate n st st')
  from body_result(2,6) [OF scan_iterate.hyps(3) scan_iterate.hyps(2)] scan_iterate.IH
    scan_iterate.hyps(2)
  show ?case by auto
qed

lemma loop_invariant:
  "CheckStreamForUTF8NoBOMInternal_loop chk buf stopPos st = Inr st' \<Longrightarrow>
   (b7bitASCIIOnly st \<longrightarrow> bValidUTF8 st) \<Longrightarrow> (b7bitASCIIOnly st' \<longrightarrow> bValidUTF8 st')"
proof (induction chk buf stopPos st rule: CheckStreamForUTF8NoBOMInternal_loop.induct)
  case (1 chk buf stopPos st)
  show ?case
  proof (cases "ucharPtr st < stopPos")
    case False
    with "1.prems" show ?thesis
      by (subst (asm) CheckStreamForUTF8NoBOMInternal_loop.simps) simp
  next
    case True
    with "1.prems"(1) obtain brk st1 where
      b: "CheckStreamForUTF8NoBOMInternal_body chk buf stopPos st = Inr (brk, st1)"
      and l: "(if brk then Inr st1 else CheckStreamForUTF8NoBOMInternal_loop chk buf stopPos st1) = Inr st'"
      by (subst (asm) CheckStreamForUTF8NoBOMInternal_loop.simps) (auto elim!: bindE_elim)
    from body_result(1) [OF b True] l
    have l': "CheckStreamForUTF8NoBOMInternal_loop chk buf stopPos st1 = Inr st'" by simp
    from body_result(6) [OF b True] "1.prems"(2)
    have inv: "b7bitASCIIOnly st1 \<longrightarrow> bValidUTF8 st1" by simp
    from body_result(1) [OF b True] have nb: "\<not> brk" .
    from "1.IH" [OF True b refl nb l' inv] show ?thesis .
  qed
qed

text \<open>
  C10. In every state the scan loop reaches, after any number of iterations, and in
  the state the scan ends in, \<^verbatim>\<open>b7bitASCIIOnly\<close> implies \<^verbatim>\<open>bValidUTF8\<close>.
\<close>

theorem scan_ascii_implies_valid:
  "(scan_after chk buf stopPos r0 n st \<longrightarrow> (b7bitASCIIOnly st \<longrightarrow> bValidUTF8 st)) \<and>
   (CheckStreamForUTF8NoBOMInternal chk buf stopPos r0 = Inr st \<longrightarrow>
      (b7bitASCIIOnly st \<longrightarrow> bValidUTF8 st))"
proof (intro conjI impI)
  assume "scan_after chk buf stopPos r0 n st" and "b7bitASCIIOnly st"
  with scan_after_invariant show "bValidUTF8 st" by blast
next
  assume "CheckStreamForUTF8NoBOMInternal chk buf stopPos r0 = Inr st" and a: "b7bitASCIIOnly st"
  then have "CheckStreamForUTF8NoBOMInternal_loop chk buf stopPos
       \<lparr> ucharPtr = 0, bValidUTF8 = True, b7bitASCIIOnly = True, reason = r0 \<rparr> = Inr st"
    by (simp add: CheckStreamForUTF8NoBOMInternal_def)
  from loop_invariant [OF this] a show "bValidUTF8 st" by simp
qed

lemma loop_reaches_end:
  assumes "if chk then stopPos \<le> length buf else stopPos + 3 \<le> length buf"
    and "scan_after chk buf stopPos r0 n st"
  shows "\<exists>m st'. scan_after chk buf stopPos r0 m st' \<and> stopPos \<le> ucharPtr st' \<and>
           CheckStreamForUTF8NoBOMInternal_loop chk buf stopPos st = Inr st'"
  using assms
proof (induction chk buf stopPos st arbitrary: n rule: CheckStreamForUTF8NoBOMInternal_loop.induct)
  case (1 chk buf stopPos st)
  show ?case
  proof (cases "ucharPtr st < stopPos")
    case False
    then have "CheckStreamForUTF8NoBOMInternal_loop chk buf stopPos st = Inr st"
      by (subst CheckStreamForUTF8NoBOMInternal_loop.simps) simp
    with False "1.prems"(2) show ?thesis by (intro exI [of _ n] exI [of _ st]) simp
  next
    case True
    from body_step [OF True "1.prems"(1)] obtain st1 where
      b: "CheckStreamForUTF8NoBOMInternal_body chk buf stopPos st = Inr (False, st1)" by blast
    have next_state: "scan_after chk buf stopPos r0 (Suc n) st1"
      using "1.prems"(2) True b by (rule scan_iterate)
    from "1.IH" [OF True b refl _ "1.prems"(1) next_state]
    obtain m st' where "scan_after chk buf stopPos r0 m st'" "stopPos \<le> ucharPtr st'"
      "CheckStreamForUTF8NoBOMInternal_loop chk buf stopPos st1 = Inr st'" by auto
    moreover have "CheckStreamForUTF8NoBOMInternal_loop chk buf stopPos st =
        CheckStreamForUTF8NoBOMInternal_loop chk buf stopPos st1"
      using True b by (subst CheckStreamForUTF8NoBOMInternal_loop.simps) simp
    ultimately show ?thesis by auto
  qed
qed

text \<open>
  C6. In both modes in which the scan is called: an iteration of the loop that is
  entered in a reachable state completes, does not leave the loop by \<^verbatim>\<open>break\<close> and
  ends with the cursor strictly further; and the scan ends, after at most as
  many iterations as the buffer has bytes, with the cursor at or behind
  \<^verbatim>\<open>stopPos\<close>.
\<close>

theorem scan_forward_progress:
  assumes "scan_call chk buf stopPos"
  shows "(\<forall>n st. scan_after chk buf stopPos r0 n st \<and> ucharPtr st < stopPos \<longrightarrow>
            (\<exists>st'. CheckStreamForUTF8NoBOMInternal_body chk buf stopPos st = Inr (False, st') \<and>
                   ucharPtr st < ucharPtr st')) \<and>
         (\<exists>n st. scan_after chk buf stopPos r0 n st \<and> n \<le> length buf \<and>
                 stopPos \<le> ucharPtr st \<and>
                 CheckStreamForUTF8NoBOMInternal chk buf stopPos r0 = Inr st)"
proof (intro conjI allI impI)
  fix n st assume "scan_after chk buf stopPos r0 n st \<and> ucharPtr st < stopPos"
  then have lt: "ucharPtr st < stopPos" by simp
  from scan_call_bounds [OF assms]
  have "if chk then stopPos \<le> length buf else stopPos + 3 \<le> length buf" by simp
  from body_step [OF lt this]
  show "\<exists>st'. CheckStreamForUTF8NoBOMInternal_body chk buf stopPos st = Inr (False, st') \<and>
          ucharPtr st < ucharPtr st'" by blast
next
  from scan_call_bounds [OF assms]
  have bounds: "if chk then stopPos \<le> length buf else stopPos + 3 \<le> length buf"
    and le: "stopPos \<le> length buf" by simp_all
  from loop_reaches_end [OF bounds scan_start, of r0]
  obtain m st' where r: "scan_after chk buf stopPos r0 m st'" "stopPos \<le> ucharPtr st'"
    "CheckStreamForUTF8NoBOMInternal chk buf stopPos r0 = Inr st'"
    by (auto simp: CheckStreamForUTF8NoBOMInternal_def)
  from scan_after_invariant [OF r(1)] le have "m \<le> length buf" by simp
  with r show "\<exists>n st. scan_after chk buf stopPos r0 n st \<and> n \<le> length buf \<and>
                 stopPos \<le> ucharPtr st \<and>
                 CheckStreamForUTF8NoBOMInternal chk buf stopPos r0 = Inr st" by blast
qed


theorem scan_reads_inside_buffer_witness:
  "scan_call True [0xF0] 1 \<and>
   \<not> isl (CheckStreamForUTF8NoBOMInternal True [0xF0] 1 []) \<and>
   (0::nat) < length [0xF0 :: utf8_checking_unit_t] \<and>
   \<not> isl (UTF8CharValidate True [0xF0] 0 (length [0xF0 :: utf8_checking_unit_t]) []) \<and>
   \<not> isl (UTF8CheckErrors [0xF0] 0 (length [0xF0 :: utf8_checking_unit_t]) []) \<and>
   \<not> isl (CheckStreamForUTF8NoBOM (ifstream_open [0xF0]) [])"
proof -
  have c: "scan_call True [0xF0] 1"
    by (simp add: scan_call_def UTF8_TINY_MODE_SIZE_LIMIT_def)
  have l: "(0::nat) < length [0xF0 :: utf8_checking_unit_t]" by simp
  note t = scan_reads_inside_buffer [of "[0xF0]" "[]"]
  from t c have a: "\<not> isl (CheckStreamForUTF8NoBOMInternal True [0xF0] 1 [])" by blast
  from t l have b: "\<not> isl (UTF8CharValidate True [0xF0] 0 (length [0xF0 :: utf8_checking_unit_t]) []) \<and>
    \<not> isl (UTF8CheckErrors [0xF0] 0 (length [0xF0 :: utf8_checking_unit_t]) [])" by blast
  from t have d: "\<not> isl (CheckStreamForUTF8NoBOM (ifstream_open [0xF0]) [])" by blast
  from a b c d l show ?thesis by blast
qed

theorem scan_forward_progress_witness:
  "scan_call True [0x41, 0xC3] 2 \<and>
   (\<exists>st'. CheckStreamForUTF8NoBOMInternal_body True [0x41, 0xC3] 2
            \<lparr> ucharPtr = 0, bValidUTF8 = True, b7bitASCIIOnly = True, reason = [] \<rparr> = Inr (False, st') \<and>
          ucharPtr \<lparr> ucharPtr = 0, bValidUTF8 = True, b7bitASCIIOnly = True, reason = [] \<rparr> < ucharPtr st') \<and>
   (\<exists>n st. scan_after True [0x41, 0xC3] 2 [] n st \<and> n \<le> length [0x41, 0xC3 :: utf8_checking_unit_t] \<and>
          2 \<le> ucharPtr st \<and>
          CheckStreamForUTF8NoBOMInternal True [0x41, 0xC3] 2 [] = Inr st)"
proof -
  have c: "scan_call True [0x41, 0xC3] 2"
    by (simp add: scan_call_def UTF8_TINY_MODE_SIZE_LIMIT_def)
  note t = scan_forward_progress [OF c, of "[]"]
  have s: "scan_after True [0x41, 0xC3] 2 [] 0
      \<lparr> ucharPtr = 0, bValidUTF8 = True, b7bitASCIIOnly = True, reason = [] \<rparr> \<and>
    ucharPtr \<lparr> ucharPtr = 0, bValidUTF8 = True, b7bitASCIIOnly = True, reason = [] \<rparr> < 2"
    by (simp add: scan_start)
  from t s have a: "\<exists>st'. CheckStreamForUTF8NoBOMInternal_body True [0x41, 0xC3] 2
            \<lparr> ucharPtr = 0, bValidUTF8 = True, b7bitASCIIOnly = True, reason = [] \<rparr> = Inr (False, st') \<and>
          ucharPtr \<lparr> ucharPtr = 0, bValidUTF8 = True, b7bitASCIIOnly = True, reason = [] \<rparr> < ucharPtr st'"
    by blast
  from t have b: "\<exists>n st. scan_after True [0x41, 0xC3] 2 [] n st \<and> n \<le> length [0x41, 0xC3 :: utf8_checking_unit_t] \<and>
          2 \<le> ucharPtr st \<and>
          CheckStreamForUTF8NoBOMInternal True [0x41, 0xC3] 2 [] = Inr st"
    by blast
  from a b c show ?thesis by blast
qed

theorem scan_ascii_implies_valid_witness:
  "scan_after True [0x41] 1 [] 1
     \<lparr> ucharPtr = 1, bValidUTF8 = True, b7bitASCIIOnly = True, reason = [] \<rparr> \<and>
   CheckStreamForUTF8NoBOMInternal True [0x41] 1 [] =
     Inr \<lparr> ucharPtr = 1, bValidUTF8 = True, b7bitASCIIOnly = True, reason = [] \<rparr> \<and>
   b7bitASCIIOnly \<lparr> ucharPtr = 1, bValidUTF8 = True, b7bitASCIIOnly = True, reason = [] \<rparr> \<and>
   bValidUTF8 \<lparr> ucharPtr = 1, bValidUTF8 = True, b7bitASCIIOnly = True, reason = [] \<rparr>"
proof -
  let ?st0 = "\<lparr> ucharPtr = 0, bValidUTF8 = True, b7bitASCIIOnly = True, reason = [] \<rparr>"
  let ?st1 = "\<lparr> ucharPtr = 1, bValidUTF8 = True, b7bitASCIIOnly = True, reason = [] \<rparr>"
  have b: "CheckStreamForUTF8NoBOMInternal_body True [0x41] 1 ?st0 = Inr (False, ?st1)"
    by (simp add: scan_eval cong: bindE_weak_cong)
  have "scan_after True [0x41] 1 [] (Suc 0) ?st1"
    by (rule scan_iterate [OF scan_start _ b]) simp
  then have s: "scan_after True [0x41] 1 [] 1 ?st1" by simp
  have i: "CheckStreamForUTF8NoBOMInternal True [0x41] 1 [] = Inr ?st1"
    by (simp add: scan_eval cong: bindE_weak_cong)
  have a: "b7bitASCIIOnly ?st1" by simp
  from scan_ascii_implies_valid [of True "[0x41]" 1 "[]" 1 ?st1] s a
  have "bValidUTF8 ?st1" by blast
  with s i a show ?thesis by blast
qed

section \<open>The scan on well-formed text\<close>

text \<open>On bytes that can be read, the validity tests of the code are the ranges of
  the well-formed sequences.\<close>

lemma UTF8CharASCII7_value:
  "p < length buf \<Longrightarrow> UTF8CharASCII7 buf p = Inr (ascii_valid (buf ! p))"
  by (auto simp: UTF8CharASCII7_def ascii_valid_def byte_tests_in)

lemma UTF8CharValid2Bytes_value:
  "p + 1 < length buf \<Longrightarrow> UTF8CharValid2Bytes buf p = Inr (valid2 (buf ! p) (buf ! (p + 1)))"
  by (auto simp: UTF8CharValid2Bytes_def valid2_def byte_tests_in)

lemma UTF8CharValid3Bytes_value:
  "p + 2 < length buf \<Longrightarrow>
   UTF8CharValid3Bytes buf p = Inr (valid3 (buf ! p) (buf ! (p + 1)) (buf ! (p + 2)))"
  by (auto simp: UTF8CharValid3Bytes_def valid3_def byte_tests_in)

lemma UTF8CharValid4Bytes_value:
  "p + 3 < length buf \<Longrightarrow>
   UTF8CharValid4Bytes buf p =
     Inr (valid4 (buf ! p) (buf ! (p + 1)) (buf ! (p + 2)) (buf ! (p + 3)))"
  by (auto simp: UTF8CharValid4Bytes_def valid4_def byte_tests_in)

lemma ascii_valid_le: "ascii_valid b \<Longrightarrow> b \<le> 0x7F"
  unfolding ascii_valid_def by unat_arith

lemma valid2_lead: "valid2 b0 b1 \<Longrightarrow> \<not> ascii_valid b0 \<and> \<not> b0 \<le> 0x7F"
  unfolding valid2_def ascii_valid_def by unat_arith

lemma valid3_lead: "valid3 b0 b1 b2 \<Longrightarrow> \<not> ascii_valid b0 \<and> \<not> b0 \<le> 0x7F \<and> \<not> valid2 b0 b1"
  unfolding valid3_def valid2_def ascii_valid_def by unat_arith

lemma valid4_lead:
  "valid4 b0 b1 b2 b3 \<Longrightarrow>
   \<not> ascii_valid b0 \<and> \<not> b0 \<le> 0x7F \<and> \<not> valid2 b0 b1 \<and> \<not> valid3 b0 b1 b2"
  unfolding valid4_def valid3_def valid2_def ascii_valid_def by unat_arith


lemma validate_1:
  assumes "p < length buf" and "ascii_valid (buf ! p)" and "chk \<longrightarrow> p < e"
  shows "UTF8CharValidate chk buf p e r = Inr (p + 1, True, True, r)"
  using assms by (cases chk) (simp_all add: UTF8CharValidate_def UTF8CharASCII7_value)

lemma validate_2:
  assumes "p + 1 < length buf" and "valid2 (buf ! p) (buf ! (p + 1))" and "chk \<longrightarrow> p + 2 \<le> e"
  shows "UTF8CharValidate chk buf p e r = Inr (p + 2, True, False, r)"
  using assms valid2_lead [OF assms(2)]
  by (cases chk) (simp_all add: UTF8CharValidate_def UTF8CharASCII7_value UTF8CharValid2Bytes_value)

lemma validate_3:
  assumes "p + 2 < length buf" and "valid3 (buf ! p) (buf ! (p + 1)) (buf ! (p + 2))"
    and "chk \<longrightarrow> p + 3 \<le> e"
  shows "UTF8CharValidate chk buf p e r = Inr (p + 3, True, False, r)"
  using assms valid3_lead [OF assms(2)]
  by (cases chk) (simp_all add: UTF8CharValidate_def UTF8CharASCII7_value
      UTF8CharValid2Bytes_value UTF8CharValid3Bytes_value)

lemma validate_4:
  assumes "p + 3 < length buf"
    and "valid4 (buf ! p) (buf ! (p + 1)) (buf ! (p + 2)) (buf ! (p + 3))"
    and "chk \<longrightarrow> p + 4 \<le> e"
  shows "UTF8CharValidate chk buf p e r = Inr (p + 4, True, False, r)"
  using assms valid4_lead [OF assms(2)]
  by (cases chk) (simp_all add: UTF8CharValidate_def UTF8CharASCII7_value
      UTF8CharValid2Bytes_value UTF8CharValid3Bytes_value UTF8CharValid4Bytes_value)

lemma body_valid_char:
  assumes "UTF8CharValidate chk buf (ucharPtr st) stopPos (reason st) = Inr (p1, True, a, reason st)"
  shows "CheckStreamForUTF8NoBOMInternal_body chk buf stopPos st =
     Inr (False, st\<lparr> ucharPtr := p1, b7bitASCIIOnly := (b7bitASCIIOnly st \<and> a) \<rparr>)"
  using assms
  by (simp add: CheckStreamForUTF8NoBOMInternal_body_def Let_def UTF8_DETAILED_ERROR_LIST_def)

lemma drop_Cons_nth:
  assumes "drop p buf = x # xs"
  shows "p < length buf" and "buf ! p = x" and "drop (p + 1) buf = xs"
proof -
  from assms show "p < length buf" by (cases "p < length buf") simp_all
  from assms show "buf ! p = x" by (simp add: nth_via_drop)
  have "drop (p + 1) buf = tl (drop p buf)" by (simp add: drop_Suc tl_drop)
  with assms show "drop (p + 1) buf = xs" by simp
qed


lemma range_split:
  "(p::nat) < stopPos \<Longrightarrow>
   (\<forall>i. p \<le> i \<and> i < stopPos \<longrightarrow> P i) \<longleftrightarrow> (P p \<and> (\<forall>i. p + 1 \<le> i \<and> i < stopPos \<longrightarrow> P i))"
proof
  assume "p < stopPos" and a: "\<forall>i. p \<le> i \<and> i < stopPos \<longrightarrow> P i"
  then show "P p \<and> (\<forall>i. p + 1 \<le> i \<and> i < stopPos \<longrightarrow> P i)" by auto
next
  assume lt: "p < stopPos" and a: "P p \<and> (\<forall>i. p + 1 \<le> i \<and> i < stopPos \<longrightarrow> P i)"
  show "\<forall>i. p \<le> i \<and> i < stopPos \<longrightarrow> P i"
  proof (intro allI impI)
    fix i assume h: "p \<le> i \<and> i < stopPos"
    then consider "i = p" | "p + 1 \<le> i" by arith
    then show "P i"
    proof cases
      case 1 with a show ?thesis by simp
    next
      case 2 with a h show ?thesis by simp
    qed
  qed
qed

lemma scan_wf_char:
  assumes lt: "ucharPtr st < stopPos"
    and val: "UTF8CharValidate chk buf (ucharPtr st) stopPos (reason st) =
                Inr (ucharPtr st + k, True, a, reason st)"
    and a: "a \<longleftrightarrow> buf ! ucharPtr st \<le> 0x7F"
    and rest: "\<exists>st'. CheckStreamForUTF8NoBOMInternal_loop chk buf stopPos
                  (st\<lparr> ucharPtr := ucharPtr st + k, b7bitASCIIOnly := (b7bitASCIIOnly st \<and> a) \<rparr>) = Inr st' \<and>
          bValidUTF8 st' = bValidUTF8 st \<and> reason st' = reason st \<and>
          (b7bitASCIIOnly st' \<longleftrightarrow> (b7bitASCIIOnly st \<and> a) \<and> Q)"
    and q: "a \<Longrightarrow> Q \<longleftrightarrow> (\<forall>i. ucharPtr st + 1 \<le> i \<and> i < stopPos \<longrightarrow> buf ! i \<le> 0x7F)"
  shows "\<exists>st'. CheckStreamForUTF8NoBOMInternal_loop chk buf stopPos st = Inr st' \<and>
          bValidUTF8 st' = bValidUTF8 st \<and> reason st' = reason st \<and>
          (b7bitASCIIOnly st' \<longleftrightarrow>
             b7bitASCIIOnly st \<and> (\<forall>i. ucharPtr st \<le> i \<and> i < stopPos \<longrightarrow> buf ! i \<le> 0x7F))"
proof -
  from body_valid_char [OF val]
  have b: "CheckStreamForUTF8NoBOMInternal_body chk buf stopPos st =
     Inr (False, st\<lparr> ucharPtr := ucharPtr st + k, b7bitASCIIOnly := (b7bitASCIIOnly st \<and> a) \<rparr>)" .
  have unfold: "CheckStreamForUTF8NoBOMInternal_loop chk buf stopPos st =
      CheckStreamForUTF8NoBOMInternal_loop chk buf stopPos
        (st\<lparr> ucharPtr := ucharPtr st + k, b7bitASCIIOnly := (b7bitASCIIOnly st \<and> a) \<rparr>)"
    using lt b by (subst CheckStreamForUTF8NoBOMInternal_loop.simps) simp
  from rest obtain st' where st': "CheckStreamForUTF8NoBOMInternal_loop chk buf stopPos
                  (st\<lparr> ucharPtr := ucharPtr st + k, b7bitASCIIOnly := (b7bitASCIIOnly st \<and> a) \<rparr>) = Inr st'"
    "bValidUTF8 st' = bValidUTF8 st" "reason st' = reason st"
    "b7bitASCIIOnly st' \<longleftrightarrow> (b7bitASCIIOnly st \<and> a) \<and> Q" by blast
  note split = range_split [OF lt, of "\<lambda>i. buf ! i \<le> 0x7F"]
  have "b7bitASCIIOnly st' \<longleftrightarrow>
      b7bitASCIIOnly st \<and> (\<forall>i. ucharPtr st \<le> i \<and> i < stopPos \<longrightarrow> buf ! i \<le> 0x7F)"
  proof (cases a)
    case True
    with a q st'(4) split show ?thesis by blast
  next
    case False
    with a st'(4) split show ?thesis by blast
  qed
  with st' unfold show ?thesis by simp
qed


lemma scan_wf_loop:
  assumes "if chk then stopPos = length buf else stopPos + 3 \<le> length buf"
    and "utf8_chars ascii_valid (drop (ucharPtr st) buf)"
  shows "\<exists>st'. CheckStreamForUTF8NoBOMInternal_loop chk buf stopPos st = Inr st' \<and>
          bValidUTF8 st' = bValidUTF8 st \<and> reason st' = reason st \<and>
          (b7bitASCIIOnly st' \<longleftrightarrow>
             b7bitASCIIOnly st \<and> (\<forall>i. ucharPtr st \<le> i \<and> i < stopPos \<longrightarrow> buf ! i \<le> 0x7F))"
  using assms
proof (induction chk buf stopPos st rule: CheckStreamForUTF8NoBOMInternal_loop.induct)
  case (1 chk buf stopPos st)
  let ?p = "ucharPtr st"
  note bounds = "1.prems"(1)
  show ?case
  proof (cases "?p < stopPos")
    case False
    then have "CheckStreamForUTF8NoBOMInternal_loop chk buf stopPos st = Inr st"
      by (subst CheckStreamForUTF8NoBOMInternal_loop.simps) simp
    moreover from False have "\<forall>i. ?p \<le> i \<and> i < stopPos \<longrightarrow> buf ! i \<le> 0x7F"
      by (intro allI impI) arith
    ultimately show ?thesis by simp
  next
    case True
    have step: "\<exists>st'. CheckStreamForUTF8NoBOMInternal_loop chk buf stopPos
                  (st\<lparr> ucharPtr := ?p + k, b7bitASCIIOnly := (b7bitASCIIOnly st \<and> a) \<rparr>) = Inr st' \<and>
          bValidUTF8 st' = bValidUTF8 st \<and> reason st' = reason st \<and>
          (b7bitASCIIOnly st' \<longleftrightarrow> (b7bitASCIIOnly st \<and> a) \<and>
             (\<forall>i. ?p + k \<le> i \<and> i < stopPos \<longrightarrow> buf ! i \<le> 0x7F))"
      if val: "UTF8CharValidate chk buf ?p stopPos (reason st) = Inr (?p + k, True, a, reason st)"
        and wf: "utf8_chars ascii_valid (drop (?p + k) buf)" for k a
    proof -
      from body_valid_char [OF val]
      have b: "CheckStreamForUTF8NoBOMInternal_body chk buf stopPos st =
         Inr (False, st\<lparr> ucharPtr := ?p + k, b7bitASCIIOnly := (b7bitASCIIOnly st \<and> a) \<rparr>)" .
      from "1.IH" [OF True b refl _ bounds] wf show ?thesis by simp
    qed
    from "1.prems"(2) show ?thesis
    proof (cases rule: utf8_chars.cases)
      case utf8_end
      with True bounds show ?thesis by (auto split: if_splits)
    next
      case (utf8_1 b0 bs)
      note d = drop_Cons_nth [OF utf8_1(1)]
      from utf8_1 d have val: "UTF8CharValidate chk buf ?p stopPos (reason st) =
          Inr (?p + 1, True, True, reason st)"
        using True by (intro validate_1) simp_all
      from utf8_1 d have wf: "utf8_chars ascii_valid (drop (?p + 1) buf)" by simp
      from utf8_1 d have a: "True \<longleftrightarrow> buf ! ?p \<le> 0x7F" by simp
      show ?thesis
        by (rule scan_wf_char [OF True val a step [OF val wf]]) simp
    next
      case (utf8_2 b0 b1 bs)
      note d = drop_Cons_nth [OF utf8_2(1)]
      note d1 = drop_Cons_nth [OF d(3)]
      from d d1 bounds have fit: "chk \<longrightarrow> ?p + 2 \<le> stopPos" by (auto split: if_splits)
      from utf8_2 d d1 have v: "valid2 (buf ! ?p) (buf ! (?p + 1))" by simp
      from d1 have "?p + 1 < length buf" by simp
      from validate_2 [OF this v fit]
      have val: "UTF8CharValidate chk buf ?p stopPos (reason st) =
          Inr (?p + 2, True, False, reason st)" .
      from utf8_2 d1 have wf: "utf8_chars ascii_valid (drop (?p + 2) buf)"
        by (simp add: add.assoc)
      from valid2_lead [OF v] have a: "False \<longleftrightarrow> buf ! ?p \<le> 0x7F" by simp
      show ?thesis
        by (rule scan_wf_char [OF True val a step [OF val wf]]) simp
    next
      case (utf8_3 b0 b1 b2 bs)
      note d = drop_Cons_nth [OF utf8_3(1)]
      note d1 = drop_Cons_nth [OF d(3)]
      note d2 = drop_Cons_nth [OF d1(3)]
      from d2 have len: "?p + 2 < length buf" by (simp add: add.assoc)
      with bounds have fit: "chk \<longrightarrow> ?p + 3 \<le> stopPos" by (auto split: if_splits)
      from utf8_3 d d1 d2 have v: "valid3 (buf ! ?p) (buf ! (?p + 1)) (buf ! (?p + 2))"
        by (simp add: add.assoc)
      from validate_3 [OF len v fit]
      have val: "UTF8CharValidate chk buf ?p stopPos (reason st) =
          Inr (?p + 3, True, False, reason st)" .
      from utf8_3 d2 have wf: "utf8_chars ascii_valid (drop (?p + 3) buf)"
        by (simp add: add.assoc eval_nat_numeral)
      from valid3_lead [OF v] have a: "False \<longleftrightarrow> buf ! ?p \<le> 0x7F" by simp
      show ?thesis
        by (rule scan_wf_char [OF True val a step [OF val wf]]) simp
    next
      case (utf8_4 b0 b1 b2 b3 bs)
      note d = drop_Cons_nth [OF utf8_4(1)]
      note d1 = drop_Cons_nth [OF d(3)]
      note d2 = drop_Cons_nth [OF d1(3)]
      note d3 = drop_Cons_nth [OF d2(3)]
      from d3 have len: "?p + 3 < length buf" by (simp add: add.assoc eval_nat_numeral)
      with bounds have fit: "chk \<longrightarrow> ?p + 4 \<le> stopPos" by (auto split: if_splits)
      from utf8_4 d d1 d2 d3
      have v: "valid4 (buf ! ?p) (buf ! (?p + 1)) (buf ! (?p + 2)) (buf ! (?p + 3))"
        by (simp add: add.assoc eval_nat_numeral)
      from validate_4 [OF len v fit]
      have val: "UTF8CharValidate chk buf ?p stopPos (reason st) =
          Inr (?p + 4, True, False, reason st)" .
      from utf8_4 d3 have wf: "utf8_chars ascii_valid (drop (?p + 4) buf)"
        by (simp add: add.assoc eval_nat_numeral)
      from valid4_lead [OF v] have a: "False \<longleftrightarrow> buf ! ?p \<le> 0x7F" by simp
      show ?thesis
        by (rule scan_wf_char [OF True val a step [OF val wf]]) simp
    qed
  qed
qed


lemma high_bit: "0x80 \<le> b \<longleftrightarrow> \<not> b \<le> (0x7F :: utf8_checking_unit_t)"
  by unat_arith

lemma ascii_bytes_text:
  "\<forall>b \<in> set buf. ascii_valid b \<Longrightarrow> utf8_chars ascii_valid buf"
proof (induction buf)
  case Nil
  show ?case by (rule utf8_end)
next
  case (Cons b buf)
  then have "ascii_valid b" and "utf8_chars ascii_valid buf" by simp_all
  then show ?case by (intro utf8_1 ascii_valid_le)
qed

lemma scan_call_fits:
  "scan_call chk buf stopPos \<Longrightarrow>
   if chk then stopPos = length buf else stopPos + 3 \<le> length buf"
  by (auto simp: scan_call_def UTF8_TINY_MODE_SIZE_LIMIT_def UTF8_MAX_CHAR_SIZE_def split: if_splits)

lemma scan_text:
  assumes "valid_utf8_text buf" and "scan_call chk buf stopPos"
  shows "\<exists>st. CheckStreamForUTF8NoBOM_scan buf (length buf) r0 = Inr st \<and> bValidUTF8 st \<and>
           reason st = (if chk then r0 @ ''text is shorter than a predefined limit, checking entire buffer\<newline>'' else r0) \<and>
           (b7bitASCIIOnly st \<longleftrightarrow> (\<forall>i. i < stopPos \<longrightarrow> buf ! i \<le> 0x7F))"
proof -
  let ?r = "if chk then r0 @ ''text is shorter than a predefined limit, checking entire buffer\<newline>'' else r0"
  let ?st0 = "\<lparr> ucharPtr = 0, bValidUTF8 = True, b7bitASCIIOnly = True, reason = ?r \<rparr>"
  from assms(1) have wf: "utf8_chars ascii_valid (drop (ucharPtr ?st0) buf)"
    by (simp add: valid_utf8_text_def)
  from scan_wf_loop [OF scan_call_fits [OF assms(2)] wf]
  obtain st where "CheckStreamForUTF8NoBOMInternal_loop chk buf stopPos ?st0 = Inr st"
    "bValidUTF8 st" "reason st = ?r"
    "b7bitASCIIOnly st \<longleftrightarrow> (\<forall>i. i < stopPos \<longrightarrow> buf ! i \<le> 0x7F)"
    by auto
  then show ?thesis
    by (simp add: scan_call_scan [OF assms(2)] CheckStreamForUTF8NoBOMInternal_def)
qed

lemma check_from_scan:
  assumes "CheckStreamForUTF8NoBOM_scan buf (length buf) r0 = Inr st"
  shows "CheckStreamForUTF8NoBOM (ifstream_open buf) r0 =
     Inr (\<not> b7bitASCIIOnly st \<and> bValidUTF8 st, ifstream_open buf,
          reason st @ (if b7bitASCIIOnly st then ''ASCII 7-bit text\<newline>'' else []) @
            (if bValidUTF8 st then ''sample of input contains only valid UTF-8 characters\<newline>'' else []))"
  using assms by (simp add: CheckStreamForUTF8NoBOM_def ReadSampleToBuffer_open Let_def)

lemma scan_call_mode:
  "scan_call (\<not> UTF8_TINY_MODE_SIZE_LIMIT \<le> length buf) buf
     (if UTF8_TINY_MODE_SIZE_LIMIT \<le> length buf then length buf - UTF8_MAX_CHAR_SIZE else length buf)"
  by (simp add: scan_call_def)

text \<open>
  C2. For every sample whose bytes all lie in \<open>{09, 0A, 0D} \<union> [20, 7E]\<close>, in either
  mode, the scan ends with \<^verbatim>\<open>b7bitASCIIOnly\<close> and \<^verbatim>\<open>bValidUTF8\<close> both true, and
  \<^verbatim>\<open>CheckStreamForUTF8NoBOM\<close> returns false, leaving the stream where it was and
  logging that the sample is 7-bit ASCII and valid UTF-8.
\<close>

theorem ascii_only_scan:
  assumes "\<forall>b \<in> set buf. b \<in> {0x09, 0x0A, 0x0D} \<union> {0x20 .. 0x7E}"
  shows "(\<exists>st. CheckStreamForUTF8NoBOM_scan buf (length buf) r0 = Inr st \<and>
            b7bitASCIIOnly st \<and> bValidUTF8 st) \<and>
         CheckStreamForUTF8NoBOM (ifstream_open buf) r0 =
           Inr (False, ifstream_open buf,
                r0 @ (if UTF8_TINY_MODE_SIZE_LIMIT \<le> length buf then []
                      else ''text is shorter than a predefined limit, checking entire buffer\<newline>'') @
                  ''ASCII 7-bit text\<newline>'' @
                  ''sample of input contains only valid UTF-8 characters\<newline>'')"
proof -
  from assms have a: "\<forall>b \<in> set buf. ascii_valid b"
    by (auto simp: ascii_valid_def)
  then have wf_text: "valid_utf8_text buf"
    by (simp add: valid_utf8_text_def ascii_bytes_text)
  from scan_text [OF wf_text scan_call_mode, of r0]
  obtain st where st: "CheckStreamForUTF8NoBOM_scan buf (length buf) r0 = Inr st" "bValidUTF8 st"
    "reason st = (if \<not> UTF8_TINY_MODE_SIZE_LIMIT \<le> length buf
       then r0 @ ''text is shorter than a predefined limit, checking entire buffer\<newline>'' else r0)"
    "b7bitASCIIOnly st \<longleftrightarrow>
       (\<forall>i. i < (if UTF8_TINY_MODE_SIZE_LIMIT \<le> length buf then length buf - UTF8_MAX_CHAR_SIZE else length buf)
          \<longrightarrow> buf ! i \<le> 0x7F)"
    by blast
  have "\<forall>i. i < length buf \<longrightarrow> buf ! i \<le> 0x7F"
    using a ascii_valid_le by simp
  with st(4) have b7: "b7bitASCIIOnly st" by (simp split: if_splits)
  have A: "\<exists>st. CheckStreamForUTF8NoBOM_scan buf (length buf) r0 = Inr st \<and>
            b7bitASCIIOnly st \<and> bValidUTF8 st"
    using st(1,2) b7 by blast
  have B: "CheckStreamForUTF8NoBOM (ifstream_open buf) r0 =
           Inr (False, ifstream_open buf,
                r0 @ (if UTF8_TINY_MODE_SIZE_LIMIT \<le> length buf then []
                      else ''text is shorter than a predefined limit, checking entire buffer\<newline>'') @
                  ''ASCII 7-bit text\<newline>'' @
                  ''sample of input contains only valid UTF-8 characters\<newline>'')"
    using check_from_scan [OF st(1)] st(2,3) b7 by simp
  from A B show ?thesis by (rule conjI)
qed

theorem ascii_only_scan_witness:
  "(\<exists>st. CheckStreamForUTF8NoBOM_scan [0x41, 0x0A] (length [0x41, 0x0A :: utf8_checking_unit_t]) [] = Inr st \<and>
       b7bitASCIIOnly st \<and> bValidUTF8 st) \<and>
   CheckStreamForUTF8NoBOM (ifstream_open [0x41, 0x0A]) [] =
     Inr (False, ifstream_open [0x41, 0x0A],
          ''text is shorter than a predefined limit, checking entire buffer\<newline>ASCII 7-bit text\<newline>sample of input contains only valid UTF-8 characters\<newline>'')"
proof -
  have h: "\<forall>b \<in> set [0x41, 0x0A :: utf8_checking_unit_t]. b \<in> {0x09, 0x0A, 0x0D} \<union> {0x20 .. 0x7E}"
    by simp
  from ascii_only_scan [OF h, of "[]"] show ?thesis
    by (simp add: UTF8_TINY_MODE_SIZE_LIMIT_def)
qed

text \<open>
  C1, as amended. Let the sample be a sequence of well-formed UTF-8 characters
  whose one-byte characters are TAB, LF, CR or \<open>20\<close> to \<open>7E\<close>, and let it have a byte
  \<open>\<ge> 0x80\<close>; when the sample reaches the limit of the unchecked mode, let such a
  byte lie more than four bytes before the end. Then the scan ends with
  \<^verbatim>\<open>bValidUTF8\<close> true and \<^verbatim>\<open>b7bitASCIIOnly\<close> false, and \<^verbatim>\<open>CheckStreamForUTF8NoBOM\<close>
  returns true.
\<close>

theorem valid_utf8_text_scan:
  assumes "valid_utf8_text buf"
    and "\<exists>i. i < length buf \<and> 0x80 \<le> buf ! i \<and>
             (UTF8_TINY_MODE_SIZE_LIMIT \<le> length buf \<longrightarrow> i + UTF8_MAX_CHAR_SIZE < length buf)"
  shows "(\<exists>st. CheckStreamForUTF8NoBOM_scan buf (length buf) r0 = Inr st \<and>
            bValidUTF8 st \<and> \<not> b7bitASCIIOnly st) \<and>
         CheckStreamForUTF8NoBOM (ifstream_open buf) r0 =
           Inr (True, ifstream_open buf,
                r0 @ (if UTF8_TINY_MODE_SIZE_LIMIT \<le> length buf then []
                      else ''text is shorter than a predefined limit, checking entire buffer\<newline>'') @
                  ''sample of input contains only valid UTF-8 characters\<newline>'')"
proof -
  from scan_text [OF assms(1) scan_call_mode, of r0]
  obtain st where st: "CheckStreamForUTF8NoBOM_scan buf (length buf) r0 = Inr st" "bValidUTF8 st"
    "reason st = (if \<not> UTF8_TINY_MODE_SIZE_LIMIT \<le> length buf
       then r0 @ ''text is shorter than a predefined limit, checking entire buffer\<newline>'' else r0)"
    "b7bitASCIIOnly st \<longleftrightarrow>
       (\<forall>i. i < (if UTF8_TINY_MODE_SIZE_LIMIT \<le> length buf then length buf - UTF8_MAX_CHAR_SIZE else length buf)
          \<longrightarrow> buf ! i \<le> 0x7F)"
    by blast
  from assms(2) obtain i where i: "i < length buf" "\<not> buf ! i \<le> 0x7F"
    "UTF8_TINY_MODE_SIZE_LIMIT \<le> length buf \<longrightarrow> i + UTF8_MAX_CHAR_SIZE < length buf"
    by (auto simp: high_bit)
  then have "i < (if UTF8_TINY_MODE_SIZE_LIMIT \<le> length buf then length buf - UTF8_MAX_CHAR_SIZE else length buf)"
    by (auto simp: less_diff_conv)
  with i(2) st(4) have b7: "\<not> b7bitASCIIOnly st" by blast
  have A: "\<exists>st. CheckStreamForUTF8NoBOM_scan buf (length buf) r0 = Inr st \<and>
            bValidUTF8 st \<and> \<not> b7bitASCIIOnly st"
    using st(1,2) b7 by blast
  have B: "CheckStreamForUTF8NoBOM (ifstream_open buf) r0 =
           Inr (True, ifstream_open buf,
                r0 @ (if UTF8_TINY_MODE_SIZE_LIMIT \<le> length buf then []
                      else ''text is shorter than a predefined limit, checking entire buffer\<newline>'') @
                  ''sample of input contains only valid UTF-8 characters\<newline>'')"
    using check_from_scan [OF st(1)] st(2,3) b7 by simp
  from A B show ?thesis by (rule conjI)
qed

theorem valid_utf8_text_scan_witness:
  "(\<exists>st. CheckStreamForUTF8NoBOM_scan [0x41, 0xC3, 0xA9] (length [0x41, 0xC3, 0xA9 :: utf8_checking_unit_t]) [] = Inr st \<and>
       bValidUTF8 st \<and> \<not> b7bitASCIIOnly st) \<and>
   CheckStreamForUTF8NoBOM (ifstream_open [0x41, 0xC3, 0xA9]) [] =
     Inr (True, ifstream_open [0x41, 0xC3, 0xA9],
          ''text is shorter than a predefined limit, checking entire buffer\<newline>sample of input contains only valid UTF-8 characters\<newline>'')"
proof -
  have h1: "valid_utf8_text [0x41, 0xC3, 0xA9]"
    unfolding valid_utf8_text_def
    by (intro utf8_1 utf8_2 utf8_end) (simp_all add: ascii_valid_def valid2_def)
  have "(1::nat) < length [0x41, 0xC3, 0xA9 :: utf8_checking_unit_t] \<and>
        0x80 \<le> [0x41, 0xC3, 0xA9 :: utf8_checking_unit_t] ! 1 \<and>
        (UTF8_TINY_MODE_SIZE_LIMIT \<le> length [0x41, 0xC3, 0xA9 :: utf8_checking_unit_t] \<longrightarrow>
           1 + UTF8_MAX_CHAR_SIZE < length [0x41, 0xC3, 0xA9 :: utf8_checking_unit_t])"
    by (simp add: UTF8_TINY_MODE_SIZE_LIMIT_def)
  then have h2: "\<exists>i. i < length [0x41, 0xC3, 0xA9 :: utf8_checking_unit_t] \<and>
        0x80 \<le> [0x41, 0xC3, 0xA9 :: utf8_checking_unit_t] ! i \<and>
        (UTF8_TINY_MODE_SIZE_LIMIT \<le> length [0x41, 0xC3, 0xA9 :: utf8_checking_unit_t] \<longrightarrow>
           i + UTF8_MAX_CHAR_SIZE < length [0x41, 0xC3, 0xA9 :: utf8_checking_unit_t])"
    by (rule exI)
  from valid_utf8_text_scan [OF h1 h2, of "[]"] show ?thesis
    by (simp add: UTF8_TINY_MODE_SIZE_LIMIT_def)
qed

text \<open>
  C1 as stated fails on the sample \<open>7F C3 A9\<close>, which is valid UTF-8 (U+007F, then
  U+00E9) and has bytes \<open>\<ge> 0x80\<close>: the scan takes \<open>7F\<close>, as any control character but
  TAB, LF and CR, for an invalid sequence, ends with \<^verbatim>\<open>bValidUTF8\<close> false, and the
  check returns false.
\<close>

theorem valid_utf8_with_DEL_rejected:
  "valid_utf8 [0x7F, 0xC3, 0xA9] \<and>
   (0x80 :: utf8_checking_unit_t) \<le> [0x7F, 0xC3, 0xA9] ! 1 \<and>
   CheckStreamForUTF8NoBOM_scan [0x7F, 0xC3, 0xA9] 3 [] =
     Inr \<lparr> ucharPtr = 3, bValidUTF8 = False, b7bitASCIIOnly = False,
           reason = ''text is shorter than a predefined limit, checking entire buffer\<newline>Not valid 1,2, or 3-byte UTF-8 at the end, no room for testing any 4-byte UTF-8 sequence --> considered non-UTF-8\<newline>Invalid 1 byte sequence: control char found at 0: [01111111]\<newline>'' \<rparr> \<and>
   CheckStreamForUTF8NoBOM (ifstream_open [0x7F, 0xC3, 0xA9]) [] =
     Inr (False, ifstream_open [0x7F, 0xC3, 0xA9],
          ''text is shorter than a predefined limit, checking entire buffer\<newline>Not valid 1,2, or 3-byte UTF-8 at the end, no room for testing any 4-byte UTF-8 sequence --> considered non-UTF-8\<newline>Invalid 1 byte sequence: control char found at 0: [01111111]\<newline>'')"
proof -
  have v: "valid_utf8 [0x7F, 0xC3, 0xA9]"
    unfolding valid_utf8_def
    by (intro utf8_1 utf8_2 utf8_end) (simp_all add: valid2_def)
  have s: "CheckStreamForUTF8NoBOM_scan [0x7F, 0xC3, 0xA9] 3 [] =
     Inr \<lparr> ucharPtr = 3, bValidUTF8 = False, b7bitASCIIOnly = False,
           reason = ''text is shorter than a predefined limit, checking entire buffer\<newline>Not valid 1,2, or 3-byte UTF-8 at the end, no room for testing any 4-byte UTF-8 sequence --> considered non-UTF-8\<newline>Invalid 1 byte sequence: control char found at 0: [01111111]\<newline>'' \<rparr>"
    by (simp add: scan_eval Let_def cong: bindE_weak_cong)
  have c: "CheckStreamForUTF8NoBOM (ifstream_open [0x7F, 0xC3, 0xA9]) [] =
     Inr (False, ifstream_open [0x7F, 0xC3, 0xA9],
          ''text is shorter than a predefined limit, checking entire buffer\<newline>Not valid 1,2, or 3-byte UTF-8 at the end, no room for testing any 4-byte UTF-8 sequence --> considered non-UTF-8\<newline>Invalid 1 byte sequence: control char found at 0: [01111111]\<newline>'')"
  proof -
    from s have "CheckStreamForUTF8NoBOM_scan [0x7F, 0xC3, 0xA9]
        (length [0x7F, 0xC3, 0xA9 :: utf8_checking_unit_t]) [] =
      Inr \<lparr> ucharPtr = 3, bValidUTF8 = False, b7bitASCIIOnly = False,
           reason = ''text is shorter than a predefined limit, checking entire buffer\<newline>Not valid 1,2, or 3-byte UTF-8 at the end, no room for testing any 4-byte UTF-8 sequence --> considered non-UTF-8\<newline>Invalid 1 byte sequence: control char found at 0: [01111111]\<newline>'' \<rparr>"
      by (simp add: numeral_3_eq_3)
    from check_from_scan [OF this] show ?thesis by simp
  qed
  from v s c show ?thesis by simp
qed


lemma ascii_prefix_text:
  "utf8_chars ascii_valid bs \<Longrightarrow> utf8_chars ascii_valid (replicate n 0x41 @ bs)"
proof (induction n)
  case 0
  then show ?case by simp
next
  case (Suc n)
  then have "utf8_chars ascii_valid (replicate n 0x41 @ bs)" by simp
  then have "utf8_chars ascii_valid (0x41 # replicate n 0x41 @ bs)"
    by (intro utf8_1) (simp_all add: ascii_valid_def)
  then show ?case by simp
qed

lemma unchecked_mode_tail:
  assumes "UTF8_TINY_MODE_SIZE_LIMIT \<le> n"
  shows "CheckStreamForUTF8NoBOM (ifstream_open (replicate n 0x41 @ [0xC3, 0xA9])) [] =
     Inr (False, ifstream_open (replicate n 0x41 @ [0xC3, 0xA9]),
          ''ASCII 7-bit text\<newline>sample of input contains only valid UTF-8 characters\<newline>'')"
proof -
  let ?buf = "replicate n 0x41 @ [0xC3, 0xA9 :: utf8_checking_unit_t]"
  have len: "length ?buf = n + 2" by simp
  have "utf8_chars ascii_valid [0xC3, 0xA9]"
    by (intro utf8_2 utf8_end) (simp add: valid2_def)
  then have wf_text: "valid_utf8_text ?buf"
    unfolding valid_utf8_text_def by (rule ascii_prefix_text)
  have call: "scan_call False ?buf (n + 2 - UTF8_MAX_CHAR_SIZE)"
    using assms by (simp add: scan_call_def)
  from scan_text [OF wf_text call, of "[]"]
  obtain st where st: "CheckStreamForUTF8NoBOM_scan ?buf (length ?buf) [] = Inr st" "bValidUTF8 st"
    "reason st = []"
    "b7bitASCIIOnly st \<longleftrightarrow> (\<forall>i. i < n + 2 - UTF8_MAX_CHAR_SIZE \<longrightarrow> ?buf ! i \<le> 0x7F)"
    by auto
  have "\<forall>i. i < n + 2 - UTF8_MAX_CHAR_SIZE \<longrightarrow> ?buf ! i \<le> 0x7F"
  proof (intro allI impI)
    fix i assume "i < n + 2 - UTF8_MAX_CHAR_SIZE"
    then have "i < n" by (simp add: UTF8_MAX_CHAR_SIZE_def)
    then have "?buf ! i = 0x41" by (simp add: nth_append)
    then show "?buf ! i \<le> 0x7F" by simp
  qed
  with st(4) have b7: "b7bitASCIIOnly st" by blast
  from check_from_scan [OF st(1)] st(2,3) b7 show ?thesis by simp
qed

text \<open>
  In the unchecked mode the claim as stated fails also on text without control
  characters: the scan stops four bytes before the end, so on \<open>10\<^sup>9\<close> letters \<open>A\<close>
  followed by \<open>C3 A9\<close> it sees 7-bit ASCII only and the check returns false.
\<close>

theorem unchecked_mode_skips_tail:
  "CheckStreamForUTF8NoBOM (ifstream_open (replicate 1000000000 0x41 @ [0xC3, 0xA9])) [] =
     Inr (False, ifstream_open (replicate 1000000000 0x41 @ [0xC3, 0xA9]),
          ''ASCII 7-bit text\<newline>sample of input contains only valid UTF-8 characters\<newline>'')"
  by (rule unchecked_mode_tail) (simp add: UTF8_TINY_MODE_SIZE_LIMIT_def)

section \<open>The 4-byte-overlong test where the error classifier applies it\<close>










end
